theory Spec2Isabelle
  imports Main
begin

section \<open>The SLA watchdog of civic-sentinel\<close>

text \<open>
  A shallow embedding of \<^verbatim>\<open>SLAWatchdogService\<close> (the watchdog source file: \<^verbatim>\<open>tick\<close>,
  \<^verbatim>\<open>getDeadline\<close>, \<^verbatim>\<open>addEscalationExplanations\<close>). Dates are the integers that
  \<^verbatim>\<open>Date.getTime()\<close> returns (milliseconds since the epoch), status values are the
  strings the code compares, the Firestore collection is an association list from document
  id to document, and every awaited call that can reject is a branch that returns an error.
\<close>

subsection \<open>Data model\<close>

type_synonym millis = int

record timeline_event =
  ev_type :: string
  ev_action :: string
  ev_message :: string
  ev_timestamp :: millis

record audit_entry =
  au_timestamp :: millis
  au_action :: string
  au_actor :: string
  au_oldStatus :: string
  au_newStatus :: string
  au_prevLevel :: nat
  au_newLevel :: nat
  au_previousDeadline :: millis
  au_newDeadline :: millis

text \<open>
  The fields of a complaint that the watchdog reads or writes. The document id is the key of
  the store, so it is not repeated in the record. \<^verbatim>\<open>escalationLevel\<close> and both deadlines may
  be absent from a document (the code writes \<^verbatim>\<open>complaint.escalationLevel ?? 0\<close> and
  \<^verbatim>\<open>slaDeadline ?? expectedResolutionTime\<close>).
\<close>

record complaint =
  status :: string
  escalationLevel :: "nat option"
  createdAt :: millis
  updatedAt :: millis
  slaDeadline :: "millis option"
  expectedResolutionTime :: "millis option"
  department :: "string option"
  assignedDepartment :: "string option"
  severity :: string
  timeline :: "timeline_event list"
  auditLog :: "audit_entry list"

type_synonym store = "(string \<times> complaint) list"

text \<open>An element of \<^verbatim>\<open>escalatedForAI\<close>.\<close>

record escalation =
  esc_id :: string
  esc_department :: "string option"
  esc_severity :: string
  esc_status :: string
  elapsedSeconds :: int

record tick_result =
  scanned :: nat
  escalated :: nat
  updatedIds :: "string list"

text \<open>The service instance (its \<^verbatim>\<open>running\<close> flag) together with the Firestore collection.\<close>

record world =
  running :: bool
  docs :: store

datatype error = StoreError | TypeError | AdvisoryError

text \<open>
  Which awaited store calls reject in a cycle: the bulk query, the re-fetch, the field
  update, a timeline append (which may depend on the event) and the audit append, each per
  document id. A rejected write leaves the document as it was.
\<close>

record faults =
  query_fails :: bool
  get_fails :: "string \<Rightarrow> bool"
  update_fails :: "string \<Rightarrow> bool"
  timeline_fails :: "string \<Rightarrow> timeline_event \<Rightarrow> bool"
  audit_fails :: "string \<Rightarrow> bool"

definition no_faults :: faults where
  "no_faults = \<lparr>query_fails = False, get_fails = (\<lambda>_. False), update_fails = (\<lambda>_. False),
     timeline_fails = (\<lambda>_ _. False), audit_fails = (\<lambda>_. False)\<rparr>"

subsection \<open>Configuration\<close>

text \<open>
  \<^verbatim>\<open>process.env.DEMO_SLA_SECONDS\<close>: unset (\<open>None\<close>) or a decimal integer, given by its value.
  Values that \<^verbatim>\<open>Number\<close> does not parse to an integer are outside this model.
\<close>

type_synonym env = "int option"

definition ACTIVE_STATUSES :: "string list" where
  "ACTIVE_STATUSES = [''submitted'', ''analyzed'', ''assigned'', ''acknowledged'',
     ''in_progress'', ''on_hold'', ''sla_warning'', ''escalated'']"

text \<open>\<^verbatim>\<open>Number(process.env.DEMO_SLA_SECONDS ?? '0')\<close> and the interval chosen from it.\<close>

definition DEMO_SLA_SECONDS :: "env \<Rightarrow> int" where
  "DEMO_SLA_SECONDS e = (case e of None \<Rightarrow> 0 | Some n \<Rightarrow> n)"

definition WATCHDOG_INTERVAL_MS :: "env \<Rightarrow> int" where
  "WATCHDOG_INTERVAL_MS e =
     (if DEMO_SLA_SECONDS e > 0 \<and> DEMO_SLA_SECONDS e \<le> 30 then 1000 else 60000)"

text \<open>
  Inside \<^verbatim>\<open>tick\<close>: \<^verbatim>\<open>demoSeconds = Number(process.env.DEMO_SLA_SECONDS ?? '10')\<close> and
  \<^verbatim>\<open>extensionMs = demoSeconds > 0 ? demoSeconds * 1000 : 24 * 60 * 60 * 1000\<close>.
\<close>

definition demoSeconds :: "env \<Rightarrow> int" where
  "demoSeconds e = (case e of None \<Rightarrow> 10 | Some n \<Rightarrow> n)"

definition extensionMs :: "env \<Rightarrow> int" where
  "extensionMs e = (if demoSeconds e > 0 then demoSeconds e * 1000 else 24 * 60 * 60 * 1000)"

subsection \<open>Deadlines\<close>

text \<open>\<^verbatim>\<open>getDeadline\<close>: \<^verbatim>\<open>complaint.slaDeadline ?? complaint.expectedResolutionTime\<close>.\<close>

definition getDeadline :: "complaint \<Rightarrow> millis option" where
  "getDeadline c = (case slaDeadline c of Some d \<Rightarrow> Some d | None \<Rightarrow> expectedResolutionTime c)"

text \<open>
  The in-memory filter of the bulk query's page:
  \<^verbatim>\<open>deadline = c.slaDeadline?.toDate?.() || c.expectedResolutionTime?.toDate?.()\<close>,
  \<^verbatim>\<open>if (!deadline) return false; return now.getTime() > deadline.getTime()\<close>.
  A Date object is always truthy, so \<^verbatim>\<open>||\<close> falls through exactly when the first is absent.
\<close>

definition is_overdue :: "millis \<Rightarrow> complaint \<Rightarrow> bool" where
  "is_overdue now c =
     (let deadline = (case slaDeadline c of Some d \<Rightarrow> Some d | None \<Rightarrow> expectedResolutionTime c)
      in case deadline of None \<Rightarrow> False | Some d \<Rightarrow> now > d)"

subsection \<open>The store\<close>

text \<open>
  The bulk query \<^verbatim>\<open>where('status', 'in', ACTIVE_STATUSES).orderBy('updatedAt', 'desc').limit(250)\<close>:
  the documents with a listed status, most recently updated first, at most 250 of them.
  Documents updated at the same time keep the order of the store; no statement below
  depends on how such ties are broken.
\<close>

definition query_active :: "store \<Rightarrow> store" where
  "query_active st =
     take 250 (sort_key (\<lambda>(i, c). - updatedAt c)
       (filter (\<lambda>(i, c). status c \<in> set ACTIVE_STATUSES) st))"

fun modify_doc :: "string \<Rightarrow> (complaint \<Rightarrow> complaint) \<Rightarrow> store \<Rightarrow> store" where
  "modify_doc k f [] = []"
| "modify_doc k f ((i, c) # rest) =
     (if i = k then (i, f c) # rest else (i, c) # modify_doc k f rest)"

text \<open>
  Modelled from the spec: \<^verbatim>\<open>firebaseService.getComplaint\<close> lives in the Firebase service file,
  which is not among the sources. The spec's store interface gives it as "get complaint by
  id", atomic for one document; a missing document is \<^verbatim>\<open>null\<close>.
\<close>

definition getComplaint :: "faults \<Rightarrow> store \<Rightarrow> string \<Rightarrow> error + complaint option" where
  "getComplaint F st i = (if get_fails F i then Inl StoreError else Inr (map_of st i))"

text \<open>
  Modelled from the spec: \<^verbatim>\<open>firebaseService.updateComplaintFields\<close>, of the same missing file,
  is "update named fields on complaint by id". The arguments are the five fields that
  \<^verbatim>\<open>tick\<close> passes: \<^verbatim>\<open>escalationLevel\<close>, \<^verbatim>\<open>status\<close>, \<^verbatim>\<open>updatedAt\<close> and the one deadline written to
  \<^verbatim>\<open>slaDeadline\<close> and \<^verbatim>\<open>expectedResolutionTime\<close>. A write to a document that does not exist
  rejects, as Firestore's \<^verbatim>\<open>update\<close> does.
\<close>

definition updateComplaintFields ::
  "faults \<Rightarrow> store \<Rightarrow> string \<Rightarrow> nat \<Rightarrow> string \<Rightarrow> millis \<Rightarrow> millis \<Rightarrow> error + store" where
  "updateComplaintFields F st i lvl stat upd dl =
     (if update_fails F i \<or> map_of st i = None then Inl StoreError
      else Inr (modify_doc i (\<lambda>c. c\<lparr>escalationLevel := Some lvl, status := stat, updatedAt := upd,
                                   slaDeadline := Some dl, expectedResolutionTime := Some dl\<rparr>) st))"

text \<open>
  Modelled from the spec: \<^verbatim>\<open>firebaseService.appendTimelineEvent\<close>, of the same missing file, is
  "append an item to an ordered list field on complaint by id"; the timeline is append-only.
\<close>

definition appendTimelineEvent :: "faults \<Rightarrow> store \<Rightarrow> string \<Rightarrow> timeline_event \<Rightarrow> error + store" where
  "appendTimelineEvent F st i ev =
     (if timeline_fails F i ev \<or> map_of st i = None then Inl StoreError
      else Inr (modify_doc i (\<lambda>c. c\<lparr>timeline := timeline c @ [ev]\<rparr>) st))"

text \<open>
  The audit append is written in \<^verbatim>\<open>tick\<close> itself:
  \<^verbatim>\<open>doc(id).update({auditLog: FieldValue.arrayUnion(entry)})\<close>. \<^verbatim>\<open>arrayUnion\<close> adds the entry
  unless an equal one is already in the array.
\<close>

definition appendAudit :: "faults \<Rightarrow> store \<Rightarrow> string \<Rightarrow> audit_entry \<Rightarrow> error + store" where
  "appendAudit F st i a =
     (if audit_fails F i \<or> map_of st i = None then Inl StoreError
      else Inr (modify_doc i
             (\<lambda>c. c\<lparr>auditLog := (if a \<in> set (auditLog c) then auditLog c else auditLog c @ [a])\<rparr>) st))"

subsection \<open>The escalation state machine\<close>

text \<open>
  The strict one-way transitions of \<^verbatim>\<open>tick\<close>: the next status, level and timeline message
  for the current status, or \<open>None\<close> for the \<^verbatim>\<open>continue\<close> branch. Between the two words of
  the first message the source literal holds the seven bytes E2 80 9A C3 84 C3 AC (a dash
  that was encoded twice); the string holds them as they are.
\<close>

definition msg_warning :: string where
  "msg_warning = ''SLA breached '' @
     [CHR 0xE2, CHR 0x80, CHR 0x9A, CHR 0xC3, CHR 0x84, CHR 0xC3, CHR 0xAC] @ '' warning issued''"

definition transition :: "string \<Rightarrow> (string \<times> nat \<times> string) option" where
  "transition oldStatus =
     (if oldStatus = ''analyzed'' \<or> oldStatus = ''in_progress'' \<or> oldStatus = ''submitted''
      then Some (''sla_warning'', 1, msg_warning)
      else if oldStatus = ''sla_warning''
      then Some (''escalated'', 2, ''SLA escalated to level 2'')
      else None)"

text \<open>
  \<^verbatim>\<open>Math.max(1, Math.round((now - createdAt) / 1000))\<close>. \<^verbatim>\<open>Math.round\<close> rounds to the nearest
  integer, a half towards plus infinity: on an integer number of milliseconds that is
  \<open>(d + 500) div 1000\<close>, with the floor division of HOL.
\<close>

definition elapsed_seconds :: "millis \<Rightarrow> millis \<Rightarrow> int" where
  "elapsed_seconds now created = max 1 ((now - created + 500) div 1000)"

text \<open>
  The digit that the template \<^verbatim>\<open>`Escalated to level ${newLevel}`\<close> prints; \<^verbatim>\<open>newLevel\<close> has
  type \<^verbatim>\<open>0 | 1 | 2 | 3\<close>.
\<close>

definition level_digit :: "nat \<Rightarrow> string" where
  "level_digit n = (if n = 0 then ''0'' else if n = 1 then ''1'' else if n = 2 then ''2'' else ''3'')"

subsection \<open>One iteration of the loop over the overdue complaints\<close>

text \<open>
  The body of \<^verbatim>\<open>for (const raw of overdue)\<close> for \<^verbatim>\<open>raw.id = rid\<close>. The result is
  \<open>Inr None\<close> for a \<^verbatim>\<open>continue\<close>, \<open>Inr (Some e)\<close> when the transition is committed and \<open>e\<close> is
  pushed to \<^verbatim>\<open>escalatedForAI\<close> (and its id to \<^verbatim>\<open>updatedIds\<close>), and \<open>Inl\<close> when an awaited
  call rejects or \<^verbatim>\<open>deadline.getTime()\<close> is called on an absent deadline; the store returned
  with an error holds the writes made before it.
\<close>

definition process_overdue ::
  "millis \<Rightarrow> env \<Rightarrow> faults \<Rightarrow> string \<Rightarrow> store \<Rightarrow> (error + escalation option) \<times> store" where
  "process_overdue now e F rid st =
     (case getComplaint F st rid of
        Inl err \<Rightarrow> (Inl err, st)
      | Inr None \<Rightarrow> (Inr None, st)
      | Inr (Some c) \<Rightarrow>
          if status c = ''resolved'' \<or> status c = ''escalated'' then (Inr None, st)
          else
            (case getDeadline c of
               None \<Rightarrow> (Inl TypeError, st)
             | Some slaMs \<Rightarrow>
                 if now \<le> slaMs then (Inr None, st)
                 else
                   (case transition (status c) of
                      None \<Rightarrow> (Inr None, st)
                    | Some (newStatus, newLevel, message) \<Rightarrow>
                        let elapsed = elapsed_seconds now (createdAt c);
                            newDeadline = now + extensionMs e
                        in
                        (case updateComplaintFields F st rid newLevel newStatus now newDeadline of
                           Inl err \<Rightarrow> (Inl err, st)
                         | Inr st1 \<Rightarrow>
                             (case appendTimelineEvent F st1 rid
                                     \<lparr>ev_type = ''system'',
                                      ev_action = (if newStatus = ''sla_warning''
                                                   then ''sla_warning'' else ''escalated''),
                                      ev_message = message, ev_timestamp = now\<rparr> of
                                Inl err \<Rightarrow> (Inl err, st1)
                              | Inr st2 \<Rightarrow>
                                  (case appendAudit F st2 rid
                                          \<lparr>au_timestamp = now,
                                           au_action = (if newStatus = ''sla_warning''
                                                        then ''SLA warning issued''
                                                        else ''Escalated to level '' @ level_digit newLevel),
                                           au_actor = ''system'',
                                           au_oldStatus = status c,
                                           au_newStatus = newStatus,
                                           au_prevLevel = (case escalationLevel c of
                                                             None \<Rightarrow> 0 | Some l \<Rightarrow> l),
                                           au_newLevel = newLevel,
                                           au_previousDeadline = slaMs,
                                           au_newDeadline = newDeadline\<rparr> of
                                     Inl err \<Rightarrow> (Inl err, st2)
                                   | Inr st3 \<Rightarrow>
                                       (Inr (Some \<lparr>esc_id = rid,
                                                   esc_department = (case department c of
                                                       Some d \<Rightarrow> Some d
                                                     | None \<Rightarrow> assignedDepartment c),
                                                   esc_severity = severity c,
                                                   esc_status = newStatus,
                                                   elapsedSeconds = elapsed\<rparr>), st3)))))))"

text \<open>
  The loop: the ids of the overdue page in order, the entries pushed so far, the store. There
  is no \<^verbatim>\<open>try\<close> inside the loop, so a rejection leaves it at once.
\<close>

fun process_all ::
  "millis \<Rightarrow> env \<Rightarrow> faults \<Rightarrow> string list \<Rightarrow> escalation list \<Rightarrow> store
     \<Rightarrow> (error + escalation list) \<times> store" where
  "process_all now e F [] acc st = (Inr acc, st)"
| "process_all now e F (rid # rest) acc st =
     (case process_overdue now e F rid st of
        (Inl err, st') \<Rightarrow> (Inl err, st')
      | (Inr None, st') \<Rightarrow> process_all now e F rest acc st'
      | (Inr (Some x), st') \<Rightarrow> process_all now e F rest (acc @ [x]) st')"

subsection \<open>One scan cycle\<close>

text \<open>
  The \<^verbatim>\<open>try\<close> block of \<^verbatim>\<open>tick\<close>. \<^verbatim>\<open>updatedIds\<close> and \<^verbatim>\<open>escalatedForAI\<close> are pushed together,
  so the ids are read off the entries. The second component of the result is the list handed
  to the detached \<^verbatim>\<open>addEscalationExplanations\<close>.
\<close>

definition tick_body ::
  "millis \<Rightarrow> env \<Rightarrow> faults \<Rightarrow> store \<Rightarrow> (error + tick_result \<times> escalation list) \<times> store" where
  "tick_body now e F st =
     (if query_fails F then (Inl StoreError, st)
      else
        let snap = query_active st;
            overdue = filter (\<lambda>(i, c). is_overdue now c) snap
        in (case process_all now e F (map fst overdue) [] st of
              (Inl err, st') \<Rightarrow> (Inl err, st')
            | (Inr escs, st') \<Rightarrow>
                (Inr (\<lparr>scanned = length snap, escalated = length escs,
                       updatedIds = map esc_id escs\<rparr>, escs), st')))"

text \<open>
  \<^verbatim>\<open>tick\<close>: the re-entrancy guard, then the body under \<^verbatim>\<open>try ... finally { this.running = false }\<close>.
\<close>

definition tick ::
  "millis \<Rightarrow> env \<Rightarrow> faults \<Rightarrow> world \<Rightarrow> (error + tick_result \<times> escalation list) \<times> world" where
  "tick now e F w =
     (if running w then (Inr (\<lparr>scanned = 0, escalated = 0, updatedIds = []\<rparr>, []), w)
      else
        let w1 = w\<lparr>running := True\<rparr>
        in (case tick_body now e F (docs w1) of
              (r, st') \<Rightarrow> (r, w1\<lparr>docs := st', running := False\<rparr>)))"

subsection \<open>The advisory enricher\<close>

text \<open>
  What \<^verbatim>\<open>geminiService.explainEscalation\<close> does for one request: it rejects, or it returns a
  text, which may be absent or empty.
\<close>

datatype advisory = Throws | Returns "string option"

definition ACTION_OK :: string where
  "ACTION_OK = ''ai_escalation_justification''"

definition ACTION_FAILED :: string where
  "ACTION_FAILED = ''ai_escalation_justification_failed''"

definition MSG_EMPTY :: string where
  "MSG_EMPTY = ''System escalation enforced due to SLA breach.''"

definition MSG_FAILED :: string where
  "MSG_FAILED = ''System escalation enforced due to SLA breach. AI justification unavailable.''"

text \<open>
  The body of the loop of \<^verbatim>\<open>addEscalationExplanations\<close>: the \<^verbatim>\<open>try\<close> block (the advisory call,
  the message, the append), and the \<^verbatim>\<open>catch\<close> block, entered when the call or the first
  append rejects. \<open>clk\<close> gives the \<^verbatim>\<open>new Date()\<close> stamped on the entry of each id. A
  rejection of the append inside \<^verbatim>\<open>catch\<close> leaves the function.
\<close>

definition explain_one ::
  "(escalation \<Rightarrow> advisory) \<Rightarrow> faults \<Rightarrow> (string \<Rightarrow> millis) \<Rightarrow> escalation \<Rightarrow> store
     \<Rightarrow> error option \<times> store" where
  "explain_one G F clk esc st =
     (let attempt =
            (case G esc of
               Throws \<Rightarrow> Inl AdvisoryError
             | Returns justification \<Rightarrow>
                 appendTimelineEvent F st (esc_id esc)
                   \<lparr>ev_type = ''system'', ev_action = ACTION_OK,
                    ev_message = (case justification of
                                    None \<Rightarrow> MSG_EMPTY
                                  | Some t \<Rightarrow> if t = [] then MSG_EMPTY
                                              else ''AI justification: '' @ t),
                    ev_timestamp = clk (esc_id esc)\<rparr>)
      in case attempt of
           Inr st' \<Rightarrow> (None, st')
         | Inl _ \<Rightarrow>
             (case appendTimelineEvent F st (esc_id esc)
                     \<lparr>ev_type = ''system'', ev_action = ACTION_FAILED,
                      ev_message = MSG_FAILED, ev_timestamp = clk (esc_id esc)\<rparr> of
                Inl err \<Rightarrow> (Some err, st)
              | Inr st' \<Rightarrow> (None, st')))"

fun addEscalationExplanations ::
  "(escalation \<Rightarrow> advisory) \<Rightarrow> faults \<Rightarrow> (string \<Rightarrow> millis) \<Rightarrow> escalation list \<Rightarrow> store
     \<Rightarrow> error option \<times> store" where
  "addEscalationExplanations G F clk [] st = (None, st)"
| "addEscalationExplanations G F clk (esc # rest) st =
     (case explain_one G F clk esc st of
        (Some err, st') \<Rightarrow> (Some err, st')
      | (None, st') \<Rightarrow> addEscalationExplanations G F clk rest st')"

text \<open>
  A cycle with its enrichment run to completion: \<^verbatim>\<open>tick\<close> starts the enricher only when the
  list is not empty, does not wait for it, and logs a rejection of it.
\<close>

definition tick_then_enrich ::
  "millis \<Rightarrow> env \<Rightarrow> faults \<Rightarrow> (escalation \<Rightarrow> advisory) \<Rightarrow> (string \<Rightarrow> millis) \<Rightarrow> world
     \<Rightarrow> (error + tick_result) \<times> world" where
  "tick_then_enrich now e F G clk w =
     (case tick now e F w of
        (Inl err, w') \<Rightarrow> (Inl err, w')
      | (Inr (res, escs), w') \<Rightarrow>
          (Inr res, if escs = [] then w'
                    else w'\<lparr>docs := snd (addEscalationExplanations G F clk escs (docs w'))\<rparr>))"

text \<open>Any number of cycles, each with its own clock reading, configuration and faults.\<close>

record cycle =
  cy_now :: millis
  cy_env :: env
  cy_faults :: faults
  cy_advisory :: "escalation \<Rightarrow> advisory"
  cy_clock :: "string \<Rightarrow> millis"

fun run_cycles :: "cycle list \<Rightarrow> world \<Rightarrow> world" where
  "run_cycles [] w = w"
| "run_cycles (cy # rest) w =
     run_cycles rest
       (snd (tick_then_enrich (cy_now cy) (cy_env cy) (cy_faults cy) (cy_advisory cy) (cy_clock cy) w))"


subsection \<open>Properties of documents used in the statements\<close>


text \<open>
  \<open>transitioned now e c c'\<close>: the field update of a committed transition took \<open>c\<close> to \<open>c'\<close>
  in a cycle with clock reading \<open>now\<close>. The timeline and the audit log are left open, as the
  two appends may or may not have followed.
\<close>

definition transitioned :: "millis \<Rightarrow> env \<Rightarrow> complaint \<Rightarrow> complaint \<Rightarrow> bool" where
  "transitioned now e c c' \<longleftrightarrow>
     status c \<noteq> ''resolved'' \<and> status c \<noteq> ''escalated'' \<and>
     (case getDeadline c of None \<Rightarrow> False | Some d \<Rightarrow> d < now) \<and>
     (case transition (status c) of
        None \<Rightarrow> False
      | Some (ns, nl, m) \<Rightarrow> status c' = ns \<and> escalationLevel c' = Some nl) \<and>
     updatedAt c' = now \<and>
     slaDeadline c' = Some (now + extensionMs e) \<and>
     expectedResolutionTime c' = Some (now + extensionMs e) \<and>
     createdAt c' = createdAt c"


text \<open>
  The two kinds of entry that the enricher writes: the one of the \<^verbatim>\<open>try\<close> block, with its
  message, and the one of the \<^verbatim>\<open>catch\<close> block.
\<close>

definition regular_entry :: "string \<Rightarrow> millis \<Rightarrow> timeline_event" where
  "regular_entry msg t = \<lparr>ev_type = ''system'', ev_action = ACTION_OK, ev_message = msg,
     ev_timestamp = t\<rparr>"

definition failed_entry :: "millis \<Rightarrow> timeline_event" where
  "failed_entry t = \<lparr>ev_type = ''system'', ev_action = ACTION_FAILED, ev_message = MSG_FAILED,
     ev_timestamp = t\<rparr>"

subsection \<open>Example data\<close>

text \<open>
  A complaint created at time 0 with its deadline 10 seconds later (scenario A of the
  specification), in a given status, at a given level, last updated at a given time.
\<close>

definition ex_complaint :: "string \<Rightarrow> nat option \<Rightarrow> millis \<Rightarrow> complaint" where
  "ex_complaint s l upd = \<lparr>status = s, escalationLevel = l, createdAt = 0, updatedAt = upd,
     slaDeadline = Some 10000, expectedResolutionTime = Some 10000, department = None,
     assignedDepartment = Some ''roads'', severity = ''high'', timeline = [], auditLog = []\<rparr>"

definition ex_world :: world where
  "ex_world = \<lparr>running = False,
     docs = [(''a'', ex_complaint ''submitted'' (Some 0) 5),
             (''b'', ex_complaint ''sla_warning'' (Some 1) 7),
             (''c'', ex_complaint ''escalated'' (Some 2) 9),
             (''d'', ex_complaint ''resolved'' (Some 1) 11)]\<rparr>"

text \<open>A cycle in which the field update of complaint \<^verbatim>\<open>b\<close> is rejected.\<close>

definition ex_faults :: faults where
  "ex_faults = no_faults\<lparr>update_fails := (\<lambda>i. i = ''b'')\<rparr>"

definition ex_cycle :: "millis \<Rightarrow> cycle" where
  "ex_cycle t = \<lparr>cy_now = t, cy_env = None, cy_faults = no_faults,
     cy_advisory = (\<lambda>_. Throws), cy_clock = (\<lambda>_. t + 5)\<rparr>"

definition ex_escalation :: escalation where
  "ex_escalation = \<lparr>esc_id = ''a'', esc_department = Some ''roads'', esc_severity = ''high'',
     esc_status = ''sla_warning'', elapsedSeconds = 11\<rparr>"

text \<open>Complaint \<^verbatim>\<open>a\<close> after its first breach, found at time 11000 with a window of 30 seconds.\<close>

definition ex_warned :: complaint where
  "ex_warned = (ex_complaint ''sla_warning'' (Some 1) 11000)
     \<lparr>slaDeadline := Some 41000, expectedResolutionTime := Some 41000,
      timeline := [\<lparr>ev_type = ''system'', ev_action = ''sla_warning'', ev_message = msg_warning,
                   ev_timestamp = 11000\<rparr>],
      auditLog := [\<lparr>au_timestamp = 11000, au_action = ''SLA warning issued'', au_actor = ''system'',
                   au_oldStatus = ''submitted'', au_newStatus = ''sla_warning'', au_prevLevel = 0,
                   au_newLevel = 1, au_previousDeadline = 10000, au_newDeadline = 41000\<rparr>]\<rparr>"

text \<open>A complaint whose creation time lies after the cycle's clock reading.\<close>

definition ex_world_late :: world where
  "ex_world_late = \<lparr>running = False,
     docs = [(''n'', (ex_complaint ''submitted'' (Some 0) 5)\<lparr>createdAt := 20000\<rparr>)]\<rparr>"

text \<open>A complaint back in progress that still carries level 3.\<close>

definition ex_world_high :: world where
  "ex_world_high = \<lparr>running = False, docs = [(''h'', ex_complaint ''in_progress'' (Some 3) 5)]\<rparr>"

text \<open>
  The store after complaint \<^verbatim>\<open>a\<close> was given a new deadline at 50000 by someone else, while
  a page fetched earlier still lists it as overdue.
\<close>

definition ex_refreshed :: store where
  "ex_refreshed = [(''a'', (ex_complaint ''submitted'' (Some 0) 12)\<lparr>slaDeadline := Some 50000\<rparr>)]"

text \<open>A store that rejects every timeline append, and one that rejects the regular entries only.\<close>

definition ex_reject_all :: faults where
  "ex_reject_all = no_faults\<lparr>timeline_fails := (\<lambda>i ev. True)\<rparr>"

definition ex_reject_regular :: faults where
  "ex_reject_regular = no_faults\<lparr>timeline_fails := (\<lambda>i ev. ev_action ev = ACTION_OK)\<rparr>"

section \<open>Lemmas\<close>

subsection \<open>Unfolding the model and the examples\<close>

lemmas model_defs = tick_def tick_body_def query_active_def ACTIVE_STATUSES_def is_overdue_def
  process_overdue_def getComplaint_def getDeadline_def transition_def updateComplaintFields_def
  appendTimelineEvent_def appendAudit_def extensionMs_def demoSeconds_def elapsed_seconds_def
  no_faults_def msg_warning_def level_digit_def

lemmas example_defs = ex_world_def ex_complaint_def ex_faults_def ex_cycle_def ex_escalation_def
  ex_warned_def ex_world_late_def ex_world_high_def ex_refreshed_def ex_reject_all_def
  ex_reject_regular_def

lemmas enrich_defs = explain_one_def ACTION_OK_def ACTION_FAILED_def MSG_EMPTY_def MSG_FAILED_def
  regular_entry_def failed_entry_def

text \<open>
  The two readings of an unset \<^verbatim>\<open>DEMO_SLA_SECONDS\<close>: 0 for the interval, 10 for the extension.
\<close>

lemma unset_defaults:
  "DEMO_SLA_SECONDS None = 0 \<and> WATCHDOG_INTERVAL_MS None = 60000 \<and>
   demoSeconds None = 10 \<and> extensionMs None = 10000"
  by (simp add: DEMO_SLA_SECONDS_def WATCHDOG_INTERVAL_MS_def demoSeconds_def extensionMs_def)

text \<open>
  Scenarios A and B of the specification, with the enrichment of each cycle: complaint \<^verbatim>\<open>a\<close>
  is warned by the cycle at 11000 and escalated by the cycle at 40000, with one timeline
  entry and one audit entry per transition and one fallback entry per enrichment.
\<close>

lemma scenario_A_B:
  "map_option (\<lambda>c. (status c, escalationLevel c, map ev_action (timeline c), map au_action (auditLog c)))
     (map_of (docs (run_cycles [ex_cycle 11000, ex_cycle 40000] ex_world)) ''a'') =
   Some (''escalated'', Some 2,
         [''sla_warning'', ''ai_escalation_justification_failed'',
          ''escalated'', ''ai_escalation_justification_failed''],
         [''SLA warning issued'', ''Escalated to level 2''])"
  by (simp add: model_defs example_defs enrich_defs tick_then_enrich_def)

subsection \<open>Writes to one document\<close>

text \<open>
  A write that is accepted replaces the document of its id and no other.
\<close>

lemma map_of_modify_doc:
  "map_of st k = Some c \<Longrightarrow> map_of (modify_doc k f st) = (map_of st)(k \<mapsto> f c)"
  by (induction st) (auto simp: fun_eq_iff)

lemma updateComplaintFields_Inr:
  assumes "updateComplaintFields F st i l s u d = Inr st1"
  shows "\<exists>c. map_of st i = Some c \<and>
           map_of st1 = (map_of st)(i \<mapsto> c\<lparr>escalationLevel := Some l, status := s, updatedAt := u,
                                   slaDeadline := Some d, expectedResolutionTime := Some d\<rparr>)"
  using assms
  by (auto simp: updateComplaintFields_def map_of_modify_doc split: if_splits)

lemma appendTimelineEvent_Inr:
  assumes "appendTimelineEvent F st i ev = Inr st1"
  shows "\<exists>c. map_of st i = Some c \<and>
           map_of st1 = (map_of st)(i \<mapsto> c\<lparr>timeline := timeline c @ [ev]\<rparr>)"
  using assms
  by (auto simp: appendTimelineEvent_def map_of_modify_doc split: if_splits)

lemma appendAudit_Inr:
  assumes "appendAudit F st i a = Inr st1"
  shows "\<exists>c l. map_of st i = Some c \<and> map_of st1 = (map_of st)(i \<mapsto> c\<lparr>auditLog := l\<rparr>)"
proof -
  from assms obtain c where c: "map_of st i = Some c"
    by (auto simp: appendAudit_def split: if_splits)
  let ?l = "if a \<in> set (auditLog c) then auditLog c else auditLog c @ [a]"
  from assms c have "st1 = modify_doc i (\<lambda>c. c\<lparr>auditLog :=
      (if a \<in> set (auditLog c) then auditLog c else auditLog c @ [a])\<rparr>) st"
    by (simp add: appendAudit_def split: if_splits)
  with c have "map_of st1 = (map_of st)(i \<mapsto> c\<lparr>auditLog := ?l\<rparr>)"
    by (simp only: map_of_modify_doc)
  with c show ?thesis by blast
qed

lemma transitioned_timeline:
  "transitioned now e c c' \<Longrightarrow> transitioned now e c (c'\<lparr>timeline := t\<rparr>)"
  by (auto simp: transitioned_def split: option.splits prod.splits)

lemma transitioned_auditLog:
  "transitioned now e c c' \<Longrightarrow> transitioned now e c (c'\<lparr>auditLog := t\<rparr>)"
  by (auto simp: transitioned_def split: option.splits prod.splits)

subsection \<open>One iteration: nothing changes, or one document is transitioned\<close>

lemma process_overdue_cases:
  assumes "process_overdue now e F rid st = (r, st')"
  shows "st' = st \<or>
         (\<exists>c c'. map_of st rid = Some c \<and> transitioned now e c c' \<and>
                 map_of st' = (map_of st)(rid \<mapsto> c'))"
proof (cases "getComplaint F st rid")
  case (Inl err)
  with assms show ?thesis by (simp add: process_overdue_def)
next
  case (Inr oc)
  show ?thesis
  proof (cases oc)
    case None
    with Inr assms show ?thesis by (simp add: process_overdue_def)
  next
    case (Some c)
    have c: "map_of st rid = Some c"
      using Inr Some by (simp add: getComplaint_def split: if_splits)
    show ?thesis
    proof (cases "status c = ''resolved'' \<or> status c = ''escalated''")
      case True
      with Inr Some assms show ?thesis by (simp add: process_overdue_def)
    next
      case notterm: False
      show ?thesis
      proof (cases "getDeadline c")
        case None
        with Inr Some notterm assms show ?thesis by (simp add: process_overdue_def)
      next
        case dl: (Some slaMs)
        show ?thesis
        proof (cases "now \<le> slaMs")
          case True
          with Inr Some notterm dl assms show ?thesis by (simp add: process_overdue_def)
        next
          case late: False
          show ?thesis
          proof (cases "transition (status c)")
            case None
            with Inr Some notterm dl late assms show ?thesis by (simp add: process_overdue_def)
          next
            case tr: (Some t)
            obtain ns nl m where t: "t = (ns, nl, m)" by (cases t) auto
            let ?nd = "now + extensionMs e"
            let ?c1 = "c\<lparr>escalationLevel := Some nl, status := ns, updatedAt := now,
                          slaDeadline := Some ?nd, expectedResolutionTime := Some ?nd\<rparr>"
            have tr1: "transitioned now e c ?c1"
              using notterm dl late tr t by (simp add: transitioned_def)
            show ?thesis
            proof (cases "updateComplaintFields F st rid nl ns now ?nd")
              case (Inl err)
              with Inr Some notterm dl late tr t assms show ?thesis
                by (simp add: process_overdue_def Let_def)
            next
              case u: (Inr st1)
              from updateComplaintFields_Inr[OF u] c
              have m1: "map_of st1 = (map_of st)(rid \<mapsto> ?c1)" by auto
              let ?ev = "\<lparr>ev_type = ''system'',
                          ev_action = (if ns = ''sla_warning'' then ''sla_warning'' else ''escalated''),
                          ev_message = m, ev_timestamp = now\<rparr>"
              show ?thesis
              proof (cases "appendTimelineEvent F st1 rid ?ev")
                case (Inl err)
                with Inr Some notterm dl late tr t u assms have "st' = st1"
                  by (simp add: process_overdue_def Let_def)
                with m1 tr1 c show ?thesis by blast
              next
                case a: (Inr st2)
                from appendTimelineEvent_Inr[OF a] m1
                have m2: "map_of st2 = (map_of st)(rid \<mapsto> ?c1\<lparr>timeline := timeline ?c1 @ [?ev]\<rparr>)"
                  by auto
                have tr2: "transitioned now e c (?c1\<lparr>timeline := timeline ?c1 @ [?ev]\<rparr>)"
                  by (rule transitioned_timeline[OF tr1])
                have "\<exists>l. map_of st' = (map_of st)(rid \<mapsto> ?c1\<lparr>timeline := timeline ?c1 @ [?ev], auditLog := l\<rparr>)
                       \<or> st' = st2"
                  using Inr Some notterm dl late tr t u a assms appendAudit_Inr m2
                  apply (simp add: process_overdue_def Let_def split: sum.splits)
                  apply (auto dest!: appendAudit_Inr)
                  done
                then show ?thesis
                  using m2 tr2 c transitioned_auditLog[OF tr2] by blast
              qed
            qed
          qed
        qed
      qed
    qed
  qed
qed

subsection \<open>At most one transition per document and cycle\<close>

text \<open>
  The extension is positive, so the new deadline of a transitioned document lies after
  \<open>now\<close>: the loop cannot advance the same document again in the cycle.
\<close>

lemma extensionMs_pos: "0 < extensionMs e"
  by (simp add: extensionMs_def)

lemma transitioned_once:
  assumes "transitioned now e c c'"
  shows "\<not> transitioned now e c' c''"
proof -
  from assms have "getDeadline c' = Some (now + extensionMs e)"
    by (simp add: transitioned_def getDeadline_def)
  then show ?thesis
    using extensionMs_pos[of e] by (simp add: transitioned_def)
qed

lemma process_overdue_doc:
  assumes "process_overdue now e F rid st = (r, st')"
  shows "case map_of st j of
           None \<Rightarrow> map_of st' j = None
         | Some c \<Rightarrow> (\<exists>c'. map_of st' j = Some c' \<and> (c' = c \<or> transitioned now e c c'))"
  using process_overdue_cases[OF assms]
  by (auto split: option.splits)

lemma process_all_doc:
  assumes "process_all now e F ids acc st = (r, st')"
  shows "case map_of st j of
           None \<Rightarrow> map_of st' j = None
         | Some c \<Rightarrow> (\<exists>c'. map_of st' j = Some c' \<and> (c' = c \<or> transitioned now e c c'))"
  using assms
proof (induction ids arbitrary: acc st)
  case Nil
  then show ?case by (auto split: option.splits)
next
  case (Cons rid rest)
  obtain r1 st1 where s: "process_overdue now e F rid st = (r1, st1)"
    by (cases "process_overdue now e F rid st") auto
  note d1 = process_overdue_doc[OF s, of j]
  show ?case
  proof (cases r1)
    case (Inl err)
    with Cons.prems s have "st' = st1" by simp
    with d1 show ?thesis by (auto split: option.splits)
  next
    case (Inr ox)
    then obtain acc' where "process_all now e F rest acc' st1 = (r, st')"
      using Cons.prems s by (cases ox) auto
    from Cons.IH[OF this]
    have d2: "case map_of st1 j of
           None \<Rightarrow> map_of st' j = None
         | Some c \<Rightarrow> (\<exists>c'. map_of st' j = Some c' \<and> (c' = c \<or> transitioned now e c c'))" .
    show ?thesis
    proof (cases "map_of st j")
      case None
      with d1 d2 show ?thesis by simp
    next
      case (Some c)
      with d1 obtain c1 where c1: "map_of st1 j = Some c1" "c1 = c \<or> transitioned now e c c1"
        by auto
      with d2 obtain c2 where c2: "map_of st' j = Some c2" "c2 = c1 \<or> transitioned now e c1 c2"
        by auto
      from c1(2) c2(2) have "c2 = c \<or> transitioned now e c c2"
        using transitioned_once by blast
      with Some c2(1) show ?thesis by simp
    qed
  qed
qed

lemma tick_doc:
  "case map_of (docs w) j of
     None \<Rightarrow> map_of (docs (snd (tick now e F w))) j = None
   | Some c \<Rightarrow> (\<exists>c'. map_of (docs (snd (tick now e F w))) j = Some c' \<and>
                    (c' = c \<or> transitioned now e c c'))"
proof (cases "running w \<or> query_fails F")
  case True
  then show ?thesis
    by (auto simp: tick_def tick_body_def split: option.splits)
next
  case False
  let ?ids = "map fst (filter (\<lambda>(i, c). is_overdue now c) (query_active (docs w)))"
  obtain r st' where p: "process_all now e F ?ids [] (docs w) = (r, st')"
    by (cases "process_all now e F ?ids [] (docs w)") auto
  with False have "docs (snd (tick now e F w)) = st'"
    by (auto simp: tick_def tick_body_def Let_def split: sum.splits)
  with process_all_doc[OF p, of j] show ?thesis by (auto split: option.splits)
qed

subsection \<open>The entries handed to the enricher\<close>

lemma process_overdue_pushed:
  assumes "process_overdue now e F rid st = (Inr (Some x), st')"
  shows "esc_id x = rid \<and>
         (\<exists>c. map_of st rid = Some c \<and> status c \<noteq> ''resolved'' \<and> status c \<noteq> ''escalated'' \<and>
              elapsedSeconds x = elapsed_seconds now (createdAt c))"
  using assms
  by (auto simp: process_overdue_def getComplaint_def Let_def
           split: sum.splits option.splits if_splits prod.splits)

lemma terminal_not_transitioned:
  "status c = ''resolved'' \<or> status c = ''escalated'' \<Longrightarrow> \<not> transitioned now e c c'"
  by (auto simp: transitioned_def)

lemma process_all_pushed:
  assumes "process_all now e F ids acc st = (Inr escs, st')"
  shows "\<exists>new. escs = acc @ new \<and>
           (\<forall>x\<in>set new. 1 \<le> elapsedSeconds x \<and>
              (\<forall>c. map_of st (esc_id x) = Some c \<longrightarrow>
                     status c \<noteq> ''resolved'' \<and> status c \<noteq> ''escalated''))"
  using assms
proof (induction ids arbitrary: acc st)
  case Nil
  then show ?case by simp
next
  case (Cons rid rest)
  obtain r1 st1 where s: "process_overdue now e F rid st = (r1, st1)"
    by (cases "process_overdue now e F rid st") auto
  have keep: "status c \<noteq> ''resolved'' \<and> status c \<noteq> ''escalated''"
    if "map_of st j = Some c" and "map_of st1 j = Some c1"
      and "status c1 \<noteq> ''resolved'' \<and> status c1 \<noteq> ''escalated''" for j c c1
    using process_overdue_doc[OF s, of j] that terminal_not_transitioned[of c now e c1]
    by auto
  have ex1: "\<exists>c1. map_of st1 j = Some c1" if "map_of st j = Some c" for j c
    using process_overdue_doc[OF s, of j] that by auto
  show ?case
  proof (cases r1)
    case (Inl err)
    with Cons.prems s show ?thesis by simp
  next
    case (Inr ox)
    show ?thesis
    proof (cases ox)
      case None
      with Inr Cons.prems s have "process_all now e F rest acc st1 = (Inr escs, st')" by simp
      from Cons.IH[OF this] obtain new where n: "escs = acc @ new"
        "\<forall>x\<in>set new. 1 \<le> elapsedSeconds x \<and>
              (\<forall>c. map_of st1 (esc_id x) = Some c \<longrightarrow>
                     status c \<noteq> ''resolved'' \<and> status c \<noteq> ''escalated'')" by blast
      have "\<forall>x\<in>set new. 1 \<le> elapsedSeconds x \<and>
              (\<forall>c. map_of st (esc_id x) = Some c \<longrightarrow>
                     status c \<noteq> ''resolved'' \<and> status c \<noteq> ''escalated'')"
        using n(2) keep ex1 by blast
      with n(1) show ?thesis by blast
    next
      case (Some x)
      with Inr Cons.prems s have "process_all now e F rest (acc @ [x]) st1 = (Inr escs, st')" by simp
      from Cons.IH[OF this] obtain new where n: "escs = (acc @ [x]) @ new"
        "\<forall>x\<in>set new. 1 \<le> elapsedSeconds x \<and>
              (\<forall>c. map_of st1 (esc_id x) = Some c \<longrightarrow>
                     status c \<noteq> ''resolved'' \<and> status c \<noteq> ''escalated'')" by blast
      have rest_ok: "\<forall>x\<in>set new. 1 \<le> elapsedSeconds x \<and>
              (\<forall>c. map_of st (esc_id x) = Some c \<longrightarrow>
                     status c \<noteq> ''resolved'' \<and> status c \<noteq> ''escalated'')"
        using n(2) keep ex1 by blast
      from process_overdue_pushed[OF s[unfolded Inr Some]]
      have "1 \<le> elapsedSeconds x \<and>
              (\<forall>c. map_of st (esc_id x) = Some c \<longrightarrow>
                     status c \<noteq> ''resolved'' \<and> status c \<noteq> ''escalated'')"
        by (auto simp: elapsed_seconds_def)
      with rest_ok have "\<forall>y\<in>set (x # new). 1 \<le> elapsedSeconds y \<and>
              (\<forall>c. map_of st (esc_id y) = Some c \<longrightarrow>
                     status c \<noteq> ''resolved'' \<and> status c \<noteq> ''escalated'')" by simp
      moreover have "escs = acc @ (x # new)" using n(1) by simp
      ultimately show ?thesis by blast
    qed
  qed
qed

lemma tick_pushed:
  assumes "fst (tick now e F w) = Inr (res, escs)"
  shows "\<forall>x\<in>set escs. 1 \<le> elapsedSeconds x \<and>
              (\<forall>c. map_of (docs w) (esc_id x) = Some c \<longrightarrow>
                     status c \<noteq> ''resolved'' \<and> status c \<noteq> ''escalated'')"
proof (cases "running w")
  case True
  with assms show ?thesis by (simp add: tick_def)
next
  case False
  let ?ids = "map fst (filter (\<lambda>(i, c). is_overdue now c) (query_active (docs w)))"
  obtain r st' where p: "process_all now e F ?ids [] (docs w) = (r, st')"
    by (cases "process_all now e F ?ids [] (docs w)") auto
  with False assms have "r = Inr escs"
    by (auto simp: tick_def tick_body_def Let_def split: sum.splits if_splits)
  with p process_all_pushed[of now e F ?ids "[]" "docs w" escs st'] show ?thesis by auto
qed

subsection \<open>The enricher only appends to timelines\<close>

lemma explain_one_doc:
  assumes "explain_one G F clk esc st = (r, st')"
  shows "st' = st \<or> (\<exists>c ev. map_of st (esc_id esc) = Some c \<and>
            map_of st' = (map_of st)(esc_id esc \<mapsto> c\<lparr>timeline := timeline c @ [ev]\<rparr>))"
  using assms
  by (auto simp: explain_one_def Let_def split: sum.splits advisory.splits dest!: appendTimelineEvent_Inr)

lemma addEscalationExplanations_doc:
  assumes "addEscalationExplanations G F clk escs st = (r, st')"
  shows "case map_of st j of
           None \<Rightarrow> map_of st' j = None
         | Some c \<Rightarrow> (\<exists>c'. map_of st' j = Some c' \<and> c' = c\<lparr>timeline := timeline c'\<rparr> \<and>
                         (j \<notin> esc_id ` set escs \<longrightarrow> c' = c))"
  using assms
proof (induction escs arbitrary: st)
  case Nil
  then show ?case by (auto split: option.splits)
next
  case (Cons x rest)
  obtain r1 st1 where s: "explain_one G F clk x st = (r1, st1)"
    by (cases "explain_one G F clk x st") auto
  have d1: "case map_of st j of
           None \<Rightarrow> map_of st1 j = None
         | Some c \<Rightarrow> (\<exists>c'. map_of st1 j = Some c' \<and> c' = c\<lparr>timeline := timeline c'\<rparr> \<and>
                         (j \<noteq> esc_id x \<longrightarrow> c' = c))"
    using explain_one_doc[OF s] by (auto split: option.splits)
  show ?case
  proof (cases r1)
    case (Some err)
    with Cons.prems s have "st' = st1" by simp
    with d1 show ?thesis by (auto split: option.splits)
  next
    case None
    with Cons.prems s have "addEscalationExplanations G F clk rest st1 = (r, st')" by simp
    from Cons.IH[OF this]
    have d2: "case map_of st1 j of
           None \<Rightarrow> map_of st' j = None
         | Some c \<Rightarrow> (\<exists>c'. map_of st' j = Some c' \<and> c' = c\<lparr>timeline := timeline c'\<rparr> \<and>
                         (j \<notin> esc_id ` set rest \<longrightarrow> c' = c))" .
    show ?thesis
    proof (cases "map_of st j")
      case None
      with d1 d2 show ?thesis by simp
    next
      case c: (Some c)
      with d1 obtain c1 where c1: "map_of st1 j = Some c1" "c1 = c\<lparr>timeline := timeline c1\<rparr>"
        "j \<noteq> esc_id x \<longrightarrow> c1 = c" by auto
      with d2 obtain c2 where c2: "map_of st' j = Some c2" "c2 = c1\<lparr>timeline := timeline c2\<rparr>"
        "j \<notin> esc_id ` set rest \<longrightarrow> c2 = c1" by auto
      have "c2 = c\<lparr>timeline := timeline c2\<rparr>"
        by (subst c2(2), subst c1(2)) simp
      with c c2 c1 show ?thesis by auto
    qed
  qed
qed

lemma tick_then_enrich_doc:
  assumes "map_of (docs w) j = Some c"
  shows "\<exists>c1 c'. map_of (docs (snd (tick now e F w))) j = Some c1 \<and>
           (c1 = c \<or> transitioned now e c c1) \<and>
           map_of (docs (snd (tick_then_enrich now e F G clk w))) j = Some c' \<and>
           c' = c1\<lparr>timeline := timeline c'\<rparr> \<and>
           (status c = ''resolved'' \<or> status c = ''escalated'' \<longrightarrow> c' = c1)"
proof -
  from tick_doc[where w=w and j=j and now=now and e=e and F=F] assms obtain c1 where
    c1: "map_of (docs (snd (tick now e F w))) j = Some c1" "c1 = c \<or> transitioned now e c c1"
    by auto
  obtain r w' where t: "tick now e F w = (r, w')" by (cases "tick now e F w") auto
  with c1 have c1': "map_of (docs w') j = Some c1" by simp
  have same: "c1 = c1\<lparr>timeline := timeline c1\<rparr>" by simp
  show ?thesis
  proof (cases r)
    case (Inl err)
    with t have "snd (tick_then_enrich now e F G clk w) = w'"
      by (simp add: tick_then_enrich_def)
    with c1 c1' same show ?thesis by auto
  next
    case (Inr p)
    obtain res escs where p: "p = (res, escs)" by (cases p) auto
    show ?thesis
    proof (cases "escs = []")
      case True
      with t Inr p have "snd (tick_then_enrich now e F G clk w) = w'"
        by (simp add: tick_then_enrich_def)
      with c1 c1' same show ?thesis by auto
    next
      case False
      obtain r2 st2 where a: "addEscalationExplanations G F clk escs (docs w') = (r2, st2)"
        by (cases "addEscalationExplanations G F clk escs (docs w')") auto
      with t Inr p False have d: "docs (snd (tick_then_enrich now e F G clk w)) = st2"
        by (simp add: tick_then_enrich_def)
      from addEscalationExplanations_doc[OF a, of j] c1' obtain c' where
        c': "map_of st2 j = Some c'" "c' = c1\<lparr>timeline := timeline c'\<rparr>"
            "j \<notin> esc_id ` set escs \<longrightarrow> c' = c1" by auto
      have "j \<notin> esc_id ` set escs" if "status c = ''resolved'' \<or> status c = ''escalated''"
        using tick_pushed[of now e F w res escs] t Inr p assms that by auto
      with c' c1 d show ?thesis by auto
    qed
  qed
qed

subsection \<open>Levels\<close>






lemma cycle_terminal:
  assumes "map_of (docs w) j = Some c" and "status c = ''resolved'' \<or> status c = ''escalated''"
  shows "map_of (docs (snd (tick now e F w))) j = Some c \<and>
         map_of (docs (snd (tick_then_enrich now e F G clk w))) j = Some c"
  using tick_then_enrich_doc[OF assms(1), of now e F G clk] assms(2) terminal_not_transitioned[OF assms(2)]
  by auto

subsection \<open>The new deadline\<close>

text \<open>
  Whenever a cycle changes a complaint, both deadline fields become \<open>now\<close> plus the
  extension that \<^verbatim>\<open>tick\<close> computes from the variable.
\<close>

lemma deadline_extension:
  assumes "map_of (docs w) j = Some c"
    and "map_of (docs (snd (tick now e F w))) j = Some c'"
    and "c' \<noteq> c"
  shows "slaDeadline c' = Some (now + extensionMs e) \<and>
         expectedResolutionTime c' = Some (now + extensionMs e) \<and>
         extensionMs e = (case e of None \<Rightarrow> 10 * 1000
                          | Some n \<Rightarrow> if n > 0 then n * 1000 else 24 * 60 * 60 * 1000)"
proof -
  from tick_doc[where w=w and j=j and now=now and e=e and F=F] assms
  have "transitioned now e c c'" by auto
  then show ?thesis
    by (simp add: transitioned_def extensionMs_def demoSeconds_def split: option.splits)
qed

text \<open>
  With a window of 30 seconds, complaint \<^verbatim>\<open>a\<close> found overdue at 11000 gets both deadlines
  set to 41000, one timeline entry and one audit entry.
\<close>

lemma scenario_A_window_30:
  "map_of (docs (snd (tick 11000 (Some 30) no_faults ex_world))) ''a'' = Some ex_warned"
  by (simp add: model_defs example_defs)

subsection \<open>A cycle without rejected calls commits what is overdue\<close>

text \<open>
  When no call is rejected, the loop body commits the transition of a complaint whose
  re-fetched deadline is strictly in the past, the loop never leaves early, and every
  overdue complaint of the page is advanced.
\<close>

lemma process_overdue_commit:
  assumes c: "map_of st rid = Some c"
    and g: "\<not> get_fails F rid"
    and tr: "transition (status c) = Some (ns, nl, m)"
    and dl: "getDeadline c = Some d" and late: "d < now"
    and u: "\<not> update_fails F rid"
    and t: "\<forall>ev. \<not> timeline_fails F rid ev"
    and a: "\<not> audit_fails F rid"
  shows "\<exists>x st' c'. process_overdue now e F rid st = (Inr (Some x), st') \<and>
           esc_id x = rid \<and> esc_status x = ns \<and>
           map_of st' = (map_of st)(rid \<mapsto> c') \<and> transitioned now e c c'"
proof -
  have nt: "status c \<noteq> ''resolved''" "status c \<noteq> ''escalated''"
    using tr by (auto simp: transition_def split: if_splits)
  let ?nd = "now + extensionMs e"
  let ?f1 = "\<lambda>c. c\<lparr>escalationLevel := Some nl, status := ns, updatedAt := now,
                     slaDeadline := Some ?nd, expectedResolutionTime := Some ?nd\<rparr>"
  let ?st1 = "modify_doc rid ?f1 st"
  have u1: "updateComplaintFields F st rid nl ns now ?nd = Inr ?st1"
    using c u by (simp add: updateComplaintFields_def)
  have m1: "map_of ?st1 = (map_of st)(rid \<mapsto> ?f1 c)"
    using c by (rule map_of_modify_doc)
  have tr1: "transitioned now e c (?f1 c)"
    using nt dl late tr by (simp add: transitioned_def)
  let ?ev = "\<lparr>ev_type = ''system'',
              ev_action = (if ns = ''sla_warning'' then ''sla_warning'' else ''escalated''),
              ev_message = m, ev_timestamp = now\<rparr>"
  let ?f2 = "\<lambda>c. c\<lparr>timeline := timeline c @ [?ev]\<rparr>"
  let ?st2 = "modify_doc rid ?f2 ?st1"
  have c1: "map_of ?st1 rid = Some (?f1 c)" using m1 by simp
  have a1: "appendTimelineEvent F ?st1 rid ?ev = Inr ?st2"
    using c1 t by (simp add: appendTimelineEvent_def)
  have m2: "map_of ?st2 = (map_of st)(rid \<mapsto> ?f2 (?f1 c))"
    using map_of_modify_doc[OF c1, of ?f2] m1 by simp
  have tr2: "transitioned now e c (?f2 (?f1 c))"
    using transitioned_timeline[OF tr1] .
  let ?en = "\<lparr>au_timestamp = now,
               au_action = (if ns = ''sla_warning'' then ''SLA warning issued''
                            else ''Escalated to level '' @ level_digit nl),
               au_actor = ''system'', au_oldStatus = status c, au_newStatus = ns,
               au_prevLevel = (case escalationLevel c of None \<Rightarrow> 0 | Some l \<Rightarrow> l),
               au_newLevel = nl, au_previousDeadline = d, au_newDeadline = ?nd\<rparr>"
  have c2: "map_of ?st2 rid = Some (?f2 (?f1 c))" using m2 by simp
  obtain st3 where a2: "appendAudit F ?st2 rid ?en = Inr st3"
    using c2 a by (simp add: appendAudit_def)
  from appendAudit_Inr[OF a2] c2 obtain l where
    m3: "map_of st3 = (map_of ?st2)(rid \<mapsto> (?f2 (?f1 c))\<lparr>auditLog := l\<rparr>)" by auto
  have tr3: "transitioned now e c ((?f2 (?f1 c))\<lparr>auditLog := l\<rparr>)"
    using transitioned_auditLog[OF tr2] .
  have m3': "map_of st3 = (map_of st)(rid \<mapsto> (?f2 (?f1 c))\<lparr>auditLog := l\<rparr>)"
    using m3 m2 by simp
  have "\<exists>x. process_overdue now e F rid st = (Inr (Some x), st3) \<and> esc_id x = rid \<and> esc_status x = ns"
    using c g nt dl late tr u1 a1 a2
    by (simp add: process_overdue_def getComplaint_def Let_def)
  with m3' tr3 show ?thesis by blast
qed

lemma transitioned_changes: "transitioned now e c c' \<Longrightarrow> c' \<noteq> c"
  by (auto simp: transitioned_def transition_def split: if_splits)

lemma transitioned_has_deadline: "transitioned now e c c' \<Longrightarrow> getDeadline c' \<noteq> None"
  by (simp add: transitioned_def getDeadline_def)

lemma process_overdue_no_error:
  assumes "\<forall>c. map_of st rid = Some c \<longrightarrow> getDeadline c \<noteq> None"
  shows "\<exists>ox st'. process_overdue now e no_faults rid st = (Inr ox, st')"
proof (cases "map_of st rid")
  case None
  then show ?thesis by (simp add: process_overdue_def getComplaint_def no_faults_def)
next
  case (Some c)
  with assms obtain d where d: "getDeadline c = Some d" by auto
  show ?thesis
  proof (cases "status c = ''resolved'' \<or> status c = ''escalated'' \<or> now \<le> d \<or> transition (status c) = None")
    case True
    with Some d show ?thesis
      by (auto simp: process_overdue_def getComplaint_def no_faults_def)
  next
    case False
    then obtain ns nl m where tr: "transition (status c) = Some (ns, nl, m)"
      by (cases "transition (status c)") auto
    from False have late: "d < now" by simp
    from process_overdue_commit[OF Some _ tr d late, of no_faults e]
    show ?thesis by (auto simp: no_faults_def)
  qed
qed

lemma process_all_commits:
  assumes "\<forall>i\<in>set ids. \<forall>c. map_of st i = Some c \<longrightarrow> getDeadline c \<noteq> None"
    and "j \<in> set ids" and "map_of st j = Some c"
    and "transition (status c) \<noteq> None" and "getDeadline c = Some d" and "d < now"
  shows "\<exists>c'. map_of (snd (process_all now e no_faults ids acc st)) j = Some c' \<and>
              transitioned now e c c'"
  using assms
proof (induction ids arbitrary: acc st)
  case Nil
  then show ?case by simp
next
  case (Cons rid rest)
  from Cons.prems(1) have "\<forall>c. map_of st rid = Some c \<longrightarrow> getDeadline c \<noteq> None" by simp
  from process_overdue_no_error[OF this, of now e] obtain ox st1 where
    s: "process_overdue now e no_faults rid st = (Inr ox, st1)" by blast
  have inv: "\<forall>i\<in>set rest. \<forall>c. map_of st1 i = Some c \<longrightarrow> getDeadline c \<noteq> None"
  proof (intro ballI allI impI)
    fix i c1 assume i: "i \<in> set rest" and c1: "map_of st1 i = Some c1"
    from process_overdue_doc[OF s, of i] c1 obtain c0 where
      "map_of st i = Some c0" "c1 = c0 \<or> transitioned now e c0 c1"
      by (auto split: option.splits)
    with Cons.prems(1) i show "getDeadline c1 \<noteq> None"
      using transitioned_has_deadline by auto
  qed
  obtain acc' where step: "process_all now e no_faults (rid # rest) acc st
      = process_all now e no_faults rest acc' st1"
    using s by (cases ox) auto
  show ?case
  proof (cases "rid = j")
    case True
    from Cons.prems(4) obtain ns nl m where tr: "transition (status c) = Some (ns, nl, m)"
      by (cases "transition (status c)") auto
    from process_overdue_commit[OF Cons.prems(3) _ tr Cons.prems(5) Cons.prems(6), of no_faults e]
    obtain x st' c1 where k: "process_overdue now e no_faults j st = (Inr (Some x), st')"
      "map_of st' = (map_of st)(j \<mapsto> c1)" "transitioned now e c c1"
      by (auto simp: no_faults_def)
    with s True have c1: "map_of st1 j = Some c1" by simp
    obtain r st2 where p: "process_all now e no_faults rest acc' st1 = (r, st2)"
      by (cases "process_all now e no_faults rest acc' st1") auto
    from process_all_doc[OF p, of j] c1 obtain c2 where
      "map_of st2 j = Some c2" "c2 = c1 \<or> transitioned now e c1 c2" by auto
    with k(3) transitioned_once[OF k(3)] have "map_of st2 j = Some c1" by auto
    with step p k(3) show ?thesis by auto
  next
    case False
    with Cons.prems(2) have j: "j \<in> set rest" by simp
    from process_overdue_cases[OF s] False Cons.prems(3)
    have "map_of st1 j = Some c" by auto
    from Cons.IH[OF inv j this Cons.prems(4) Cons.prems(5) Cons.prems(6), of acc'] step
    show ?thesis by simp
  qed
qed

lemma tick_commits:
  assumes nr: "\<not> running w" and dist: "distinct (map fst (docs w))"
    and pg: "(j, c) \<in> set (query_active (docs w))"
    and tr: "transition (status c) \<noteq> None"
    and dl: "getDeadline c = Some d" and late: "d < now"
  shows "\<exists>c'. map_of (docs (snd (tick now e no_faults w))) j = Some c' \<and> transitioned now e c c'"
proof -
  let ?page = "query_active (docs w)"
  let ?ids = "map fst (filter (\<lambda>(i, c). is_overdue now c) ?page)"
  have sub: "set ?page \<subseteq> set (docs w)"
    by (auto simp: query_active_def dest: in_set_takeD)
  have look: "map_of (docs w) i = Some x" if "(i, x) \<in> set (docs w)" for i x
    using dist that by simp
  have od: "is_overdue now c" using dl late by (simp add: is_overdue_def getDeadline_def split: option.splits)
  have j: "j \<in> set ?ids" using pg od by force
  have cj: "map_of (docs w) j = Some c" using look sub pg by blast
  have inv: "\<forall>i\<in>set ?ids. \<forall>x. map_of (docs w) i = Some x \<longrightarrow> getDeadline x \<noteq> None"
  proof (intro ballI allI impI)
    fix i x assume "i \<in> set ?ids" and x: "map_of (docs w) i = Some x"
    then obtain y where y: "(i, y) \<in> set ?page" "is_overdue now y" by auto
    with sub look x have "y = x" by fastforce
    with y show "getDeadline x \<noteq> None"
      by (auto simp: is_overdue_def getDeadline_def split: option.splits)
  qed
  have "docs (snd (tick now e no_faults w)) = snd (process_all now e no_faults ?ids [] (docs w))"
    using nr by (simp add: tick_def tick_body_def Let_def no_faults_def split: prod.splits sum.splits)
  with process_all_commits[OF inv j cj tr dl late, of e "[]"] show ?thesis by simp
qed

subsection \<open>Leaving the loop on an error\<close>

lemma process_all_abort:
  assumes "process_all now e F pre acc st = (Inr acc1, st1)"
    and "process_overdue now e F rid st1 = (Inl err, st2)"
  shows "process_all now e F (pre @ rid # rest) acc st = (Inl err, st2)"
  using assms
proof (induction pre arbitrary: acc st)
  case Nil
  then show ?case by simp
next
  case (Cons p pre)
  obtain r1 s1 where s: "process_overdue now e F p st = (r1, s1)"
    by (cases "process_overdue now e F p st") auto
  show ?case
  proof (cases r1)
    case (Inl x)
    with Cons.prems(1) s show ?thesis by simp
  next
    case (Inr ox)
    with Cons s show ?thesis by (cases ox) auto
  qed
qed

subsection \<open>The page is ordered\<close>

lemma query_active_sorted:
  "sorted_wrt (\<lambda>x y. updatedAt (snd y) \<le> updatedAt (snd x))
     (sort_key (\<lambda>(i, c). - updatedAt c) xs)"
proof -
  have "sorted (map (\<lambda>(i, c). - updatedAt c) (sort_key (\<lambda>(i, c). - updatedAt c) xs))"
    by (rule sorted_sort_key)
  then have "sorted_wrt (\<lambda>x y. (case x of (i, c) \<Rightarrow> - updatedAt c) \<le> (case y of (i, c) \<Rightarrow> - updatedAt c))
              (sort_key (\<lambda>(i, c). - updatedAt c) xs)"
    by (simp add: sorted_map)
  then show ?thesis
    by (rule sorted_wrt_mono_rel[rotated]) (auto split: prod.splits)
qed

section \<open>The claims\<close>

subsection \<open>C1: the edges of the state machine\<close>

text \<open>
  C1. Whatever a cycle does to a complaint, it either leaves the document exactly as it was
  or takes it along one of two edges: from \<^verbatim>\<open>submitted\<close>, \<^verbatim>\<open>analyzed\<close> or \<^verbatim>\<open>in_progress\<close>
  to \<^verbatim>\<open>sla_warning\<close> with level 1, or from \<^verbatim>\<open>sla_warning\<close> to \<^verbatim>\<open>escalated\<close> with level 2.
  This holds for every clock reading, configuration and pattern of rejected store calls, and
  a complaint in any other status is left as it was.
\<close>

theorem C1_only_edges:
  assumes "map_of (docs w) j = Some c"
  shows "\<exists>c'. map_of (docs (snd (tick now e F w))) j = Some c' \<and>
           (c' = c
            \<or> ((status c = ''submitted'' \<or> status c = ''analyzed'' \<or> status c = ''in_progress'') \<and>
                status c' = ''sla_warning'' \<and> escalationLevel c' = Some 1)
            \<or> (status c = ''sla_warning'' \<and> status c' = ''escalated'' \<and> escalationLevel c' = Some 2))"
proof -
  from tick_doc[where w=w and j=j and now=now and e=e and F=F] assms obtain c' where
    c': "map_of (docs (snd (tick now e F w))) j = Some c'" "c' = c \<or> transitioned now e c c'"
    by auto
  have "transitioned now e c c' \<Longrightarrow>
          ((status c = ''submitted'' \<or> status c = ''analyzed'' \<or> status c = ''in_progress'') \<and>
                status c' = ''sla_warning'' \<and> escalationLevel c' = Some 1)
            \<or> (status c = ''sla_warning'' \<and> status c' = ''escalated'' \<and> escalationLevel c' = Some 2)"
    by (auto simp: transitioned_def transition_def split: if_splits option.splits)
  with c' show ?thesis by blast
qed

text \<open>
  Scenario A: complaint \<^verbatim>\<open>a\<close> is \<^verbatim>\<open>submitted\<close> with its deadline at 10000; the cycle at 11000
  takes it to \<^verbatim>\<open>sla_warning\<close>, level 1.
\<close>

theorem C1_only_edges_witness:
  "map_of (docs ex_world) ''a'' = Some (ex_complaint ''submitted'' (Some 0) 5) \<and>
   (\<exists>c'. map_of (docs (snd (tick 11000 None no_faults ex_world))) ''a'' = Some c' \<and>
         status c' = ''sla_warning'' \<and> escalationLevel c' = Some 1)"
proof -
  have h: "map_of (docs ex_world) ''a'' = Some (ex_complaint ''submitted'' (Some 0) 5)"
    by (simp add: ex_world_def)
  have s: "status (ex_complaint ''submitted'' (Some 0) 5) = ''submitted''"
    by (simp add: ex_complaint_def)
  have ne: "map_of (docs (snd (tick 11000 None no_faults ex_world))) ''a''
              \<noteq> Some (ex_complaint ''submitted'' (Some 0) 5)"
    by (simp add: model_defs example_defs)
  from C1_only_edges[OF h, of 11000 None no_faults] ne s h show ?thesis
    by auto
qed

subsection \<open>C2: resolved and escalated are fixed points\<close>

text \<open>
  C2. A complaint whose status is \<^verbatim>\<open>resolved\<close> or \<^verbatim>\<open>escalated\<close> is left untouched by a
  cycle: the whole document, status, level, deadlines, timeline and audit log, is the same
  after \<^verbatim>\<open>tick\<close>, and the same after any number of cycles, each followed by its
  enrichment.
\<close>

theorem C2_terminal_fixed_point:
  assumes "map_of (docs w) j = Some c" and "status c = ''resolved'' \<or> status c = ''escalated''"
  shows "map_of (docs (snd (tick now e F w))) j = Some c \<and>
         map_of (docs (run_cycles cys w)) j = Some c"
proof -
  have "map_of (docs (run_cycles cys w)) j = Some c"
    using assms(1)
  proof (induction cys arbitrary: w)
    case Nil
    then show ?case by simp
  next
    case (Cons cy rest)
    from cycle_terminal[OF Cons.prems assms(2)]
    have "map_of (docs (snd (tick_then_enrich (cy_now cy) (cy_env cy) (cy_faults cy)
             (cy_advisory cy) (cy_clock cy) w))) j = Some c" by blast
    from Cons.IH[OF this] show ?case by simp
  qed
  with cycle_terminal[OF assms, of now e F] show ?thesis by blast
qed

text \<open>
  Scenario C: complaint \<^verbatim>\<open>c\<close> is \<^verbatim>\<open>escalated\<close> and overdue, and two cycles leave it alone.
\<close>

theorem C2_terminal_fixed_point_witness:
  "map_of (docs ex_world) ''c'' = Some (ex_complaint ''escalated'' (Some 2) 9) \<and>
   (status (ex_complaint ''escalated'' (Some 2) 9) = ''resolved'' \<or>
    status (ex_complaint ''escalated'' (Some 2) 9) = ''escalated'') \<and>
   map_of (docs (snd (tick 11000 None no_faults ex_world))) ''c'' =
     Some (ex_complaint ''escalated'' (Some 2) 9) \<and>
   map_of (docs (run_cycles [ex_cycle 11000, ex_cycle 40000] ex_world)) ''c'' =
     Some (ex_complaint ''escalated'' (Some 2) 9)"
proof -
  have h: "map_of (docs ex_world) ''c'' = Some (ex_complaint ''escalated'' (Some 2) 9)"
    by (simp add: ex_world_def)
  have s: "status (ex_complaint ''escalated'' (Some 2) 9) = ''resolved'' \<or>
           status (ex_complaint ''escalated'' (Some 2) 9) = ''escalated''"
    by (simp add: ex_complaint_def)
  from C2_terminal_fixed_point[OF h s, of 11000 None no_faults "[ex_cycle 11000, ex_cycle 40000]"] h s
  show ?thesis by blast
qed

subsection \<open>C3: the deadline extension\<close>

text \<open>
  C3 says that the extension is 24 hours when the accelerated window is not configured.
  With the variable unset, \<^verbatim>\<open>tick\<close> reads it as 10: complaint \<^verbatim>\<open>a\<close>, found overdue at
  11000, gets both deadlines set to 21000, ten seconds later, and not to 11000 plus 24
  hours. The interval constant reads the same unset variable as 0 and selects the 60 second
  interval.
\<close>

theorem C3_unset_extension:
  "map_option slaDeadline (map_of (docs (snd (tick 11000 None no_faults ex_world))) ''a'')
     = Some (Some (11000 + 10 * 1000)) \<and>
   map_option expectedResolutionTime (map_of (docs (snd (tick 11000 None no_faults ex_world))) ''a'')
     = Some (Some (11000 + 10 * 1000)) \<and>
   map_option slaDeadline (map_of (docs (snd (tick 11000 None no_faults ex_world))) ''a'')
     \<noteq> Some (Some (11000 + 24 * 60 * 60 * 1000)) \<and>
   WATCHDOG_INTERVAL_MS None = 60000"
  by (simp add: model_defs example_defs WATCHDOG_INTERVAL_MS_def DEMO_SLA_SECONDS_def)

subsection \<open>C4: a rejected call ends the cycle\<close>

text \<open>
  C4, as stated, says that an error on one overdue complaint does not stop the processing
  of the others. The loop has no handler of its own: with the field update of \<^verbatim>\<open>b\<close> rejected,
  \<^verbatim>\<open>tick\<close> rejects, and the overdue complaint \<^verbatim>\<open>a\<close>, which comes after \<^verbatim>\<open>b\<close> in the page
  and which a cycle without the fault takes to \<^verbatim>\<open>sla_warning\<close>, is left as it was.
\<close>

theorem C4_counterexample:
  "fst (tick 11000 None ex_faults ex_world) = Inl StoreError \<and>
   is_overdue 11000 (ex_complaint ''submitted'' (Some 0) 5) \<and>
   map_of (docs (snd (tick 11000 None ex_faults ex_world))) ''a''
     = Some (ex_complaint ''submitted'' (Some 0) 5) \<and>
   map_option status (map_of (docs (snd (tick 11000 None no_faults ex_world))) ''a'')
     = Some ''sla_warning''"
  by (simp add: model_defs example_defs)

text \<open>
  C4, amended. When the processing of one overdue complaint raises an error, the cycle
  ends there: \<^verbatim>\<open>tick\<close> rejects with that error, the store is the one reached at the error
  (the complaints before it keep what was committed for them), none of the remaining
  overdue complaints is processed, and the \<^verbatim>\<open>running\<close> flag is cleared.
\<close>

theorem C4_error_aborts_cycle:
  assumes "\<not> running w" and "\<not> query_fails F"
    and "map fst (filter (\<lambda>(i, c). is_overdue now c) (query_active (docs w))) = pre @ rid # rest"
    and "process_all now e F pre [] (docs w) = (Inr acc1, st1)"
    and "process_overdue now e F rid st1 = (Inl err, st2)"
  shows "tick now e F w = (Inl err, w\<lparr>docs := st2, running := False\<rparr>)"
proof -
  have "process_all now e F (pre @ rid # rest) [] (docs w) = (Inl err, st2)"
    by (rule process_all_abort[OF assms(4) assms(5)])
  with assms(1,2,3) show ?thesis
    by (simp add: tick_def tick_body_def Let_def)
qed

text \<open>
  The overdue page of the example store is \<^verbatim>\<open>c\<close>, \<^verbatim>\<open>b\<close>, \<^verbatim>\<open>a\<close>; the update of \<^verbatim>\<open>b\<close> is
  rejected after \<^verbatim>\<open>c\<close> was skipped.
\<close>

theorem C4_error_aborts_cycle_witness:
  "\<not> running ex_world \<and> \<not> query_fails ex_faults \<and>
   map fst (filter (\<lambda>(i, c). is_overdue 11000 c) (query_active (docs ex_world))) = [''c''] @ ''b'' # [''a''] \<and>
   process_all 11000 None ex_faults [''c''] [] (docs ex_world) = (Inr [], docs ex_world) \<and>
   process_overdue 11000 None ex_faults ''b'' (docs ex_world) = (Inl StoreError, docs ex_world) \<and>
   tick 11000 None ex_faults ex_world = (Inl StoreError, ex_world\<lparr>docs := docs ex_world, running := False\<rparr>)"
proof -
  have 1: "\<not> running ex_world" by (simp add: ex_world_def)
  have 2: "\<not> query_fails ex_faults" by (simp add: ex_faults_def no_faults_def)
  have 3: "map fst (filter (\<lambda>(i, c). is_overdue 11000 c) (query_active (docs ex_world))) = [''c''] @ ''b'' # [''a'']"
    by (simp add: model_defs example_defs)
  have 4: "process_all 11000 None ex_faults [''c''] [] (docs ex_world) = (Inr [], docs ex_world)"
    by (simp add: model_defs example_defs)
  have 5: "process_overdue 11000 None ex_faults ''b'' (docs ex_world) = (Inl StoreError, docs ex_world)"
    by (simp add: model_defs example_defs)
  from C4_error_aborts_cycle[OF 1 2 3 4 5] 1 2 3 4 5 show ?thesis by blast
qed

subsection \<open>C5: overdue means strictly past the effective deadline\<close>

text \<open>
  C5. The effective deadline is \<^verbatim>\<open>slaDeadline\<close> when present and
  \<^verbatim>\<open>expectedResolutionTime\<close> otherwise, and the in-memory filter keeps a complaint exactly
  when \<open>now\<close> is strictly greater than it. The loop body decides on the record it re-fetches
  from the store, whatever the page said: when the deadline of that record is not strictly
  in the past it changes nothing and pushes nothing, and when it is strictly in the past
  (the status has a transition and no call is rejected) it commits the transition. So a
  loop over any page, however old, leaves a complaint that is not overdue in the store as
  it was, and so does a cycle. In a cycle without rejected calls over a store with unique
  ids, a fetched complaint whose status has a transition is changed if and only if \<open>now\<close> is
  strictly greater than its effective deadline.
\<close>

theorem C5_overdue_strict:
  "(is_overdue now c \<longleftrightarrow> (\<exists>d. getDeadline c = Some d \<and> d < now)) \<and>
   (\<forall>d. slaDeadline c = Some d \<longrightarrow> getDeadline c = Some d) \<and>
   (slaDeadline c = None \<longrightarrow> getDeadline c = expectedResolutionTime c) \<and>
   (\<forall>d. map_of st rid = Some c \<and> getDeadline c = Some d \<and> now \<le> d \<longrightarrow>
        snd (process_overdue now e F rid st) = st \<and>
        (\<forall>x. fst (process_overdue now e F rid st) \<noteq> Inr (Some x))) \<and>
   (\<forall>d ns nl m. map_of st rid = Some c \<and> getDeadline c = Some d \<and> d < now \<and>
        transition (status c) = Some (ns, nl, m) \<and>
        \<not> get_fails F rid \<and> \<not> update_fails F rid \<and>
        (\<forall>ev. \<not> timeline_fails F rid ev) \<and> \<not> audit_fails F rid \<longrightarrow>
        (\<exists>x c'. fst (process_overdue now e F rid st) = Inr (Some x) \<and> esc_id x = rid \<and>
                map_of (snd (process_overdue now e F rid st)) rid = Some c' \<and>
                status c' = ns \<and> escalationLevel c' = Some nl)) \<and>
   (map_of st j = Some c \<and> \<not> is_overdue now c \<longrightarrow>
        map_of (snd (process_all now e F ids acc st)) j = Some c) \<and>
   (map_of (docs w) j = Some c \<and> \<not> is_overdue now c \<longrightarrow>
        map_of (docs (snd (tick now e F w))) j = Some c) \<and>
   (\<not> running w \<and> distinct (map fst (docs w)) \<and> (j, c) \<in> set (query_active (docs w)) \<and>
    transition (status c) \<noteq> None \<longrightarrow>
        ((\<exists>c'. map_of (docs (snd (tick now e no_faults w))) j = Some c' \<and> c' \<noteq> c)
           \<longleftrightarrow> (\<exists>d. getDeadline c = Some d \<and> d < now)))"
proof -
  have a: "is_overdue now c \<longleftrightarrow> (\<exists>d. getDeadline c = Some d \<and> d < now)"
    by (auto simp: is_overdue_def getDeadline_def split: option.splits)
  have b: "\<forall>d. slaDeadline c = Some d \<longrightarrow> getDeadline c = Some d"
    by (simp add: getDeadline_def)
  have b': "slaDeadline c = None \<longrightarrow> getDeadline c = expectedResolutionTime c"
    by (simp add: getDeadline_def)
  have nott: "\<not> transitioned now e c c'" if "\<not> is_overdue now c" for c'
    using that a by (auto simp: transitioned_def split: option.splits)
  have skip: "\<forall>d. map_of st rid = Some c \<and> getDeadline c = Some d \<and> now \<le> d \<longrightarrow>
        snd (process_overdue now e F rid st) = st \<and>
        (\<forall>x. fst (process_overdue now e F rid st) \<noteq> Inr (Some x))"
  proof (intro allI impI)
    fix d assume h: "map_of st rid = Some c \<and> getDeadline c = Some d \<and> now \<le> d"
    then have "process_overdue now e F rid st =
                 (if get_fails F rid then (Inl StoreError, st) else (Inr None, st))"
      by (simp add: process_overdue_def getComplaint_def)
    then show "snd (process_overdue now e F rid st) = st \<and>
        (\<forall>x. fst (process_overdue now e F rid st) \<noteq> Inr (Some x))"
      by simp
  qed
  have commit: "\<forall>d ns nl m. map_of st rid = Some c \<and> getDeadline c = Some d \<and> d < now \<and>
        transition (status c) = Some (ns, nl, m) \<and>
        \<not> get_fails F rid \<and> \<not> update_fails F rid \<and>
        (\<forall>ev. \<not> timeline_fails F rid ev) \<and> \<not> audit_fails F rid \<longrightarrow>
        (\<exists>x c'. fst (process_overdue now e F rid st) = Inr (Some x) \<and> esc_id x = rid \<and>
                map_of (snd (process_overdue now e F rid st)) rid = Some c' \<and>
                status c' = ns \<and> escalationLevel c' = Some nl)"
  proof (intro allI impI)
    fix d ns nl m
    assume h: "map_of st rid = Some c \<and> getDeadline c = Some d \<and> d < now \<and>
        transition (status c) = Some (ns, nl, m) \<and>
        \<not> get_fails F rid \<and> \<not> update_fails F rid \<and>
        (\<forall>ev. \<not> timeline_fails F rid ev) \<and> \<not> audit_fails F rid"
    then obtain x st' c' where k: "process_overdue now e F rid st = (Inr (Some x), st')"
        "esc_id x = rid" "map_of st' = (map_of st)(rid \<mapsto> c')" "transitioned now e c c'"
      using process_overdue_commit[of st rid c F ns nl m d now e] by blast
    from k(4) h have "status c' = ns \<and> escalationLevel c' = Some nl"
      by (simp add: transitioned_def)
    with k show "\<exists>x c'. fst (process_overdue now e F rid st) = Inr (Some x) \<and> esc_id x = rid \<and>
                map_of (snd (process_overdue now e F rid st)) rid = Some c' \<and>
                status c' = ns \<and> escalationLevel c' = Some nl"
      by simp
  qed
  have stale: "map_of st j = Some c \<and> \<not> is_overdue now c \<longrightarrow>
        map_of (snd (process_all now e F ids acc st)) j = Some c"
  proof
    assume h: "map_of st j = Some c \<and> \<not> is_overdue now c"
    obtain r st' where p: "process_all now e F ids acc st = (r, st')"
      by (cases "process_all now e F ids acc st") auto
    from process_all_doc[OF p, of j] h nott
    show "map_of (snd (process_all now e F ids acc st)) j = Some c"
      using p by auto
  qed
  have keep: "map_of (docs w) j = Some c \<and> \<not> is_overdue now c \<longrightarrow>
        map_of (docs (snd (tick now e F w))) j = Some c"
  proof
    assume h: "map_of (docs w) j = Some c \<and> \<not> is_overdue now c"
    with tick_doc[where w=w and j=j and now=now and e=e and F=F] nott
    show "map_of (docs (snd (tick now e F w))) j = Some c" by auto
  qed
  have iff: "\<not> running w \<and> distinct (map fst (docs w)) \<and> (j, c) \<in> set (query_active (docs w)) \<and>
    transition (status c) \<noteq> None \<longrightarrow>
        ((\<exists>c'. map_of (docs (snd (tick now e no_faults w))) j = Some c' \<and> c' \<noteq> c)
           \<longleftrightarrow> (\<exists>d. getDeadline c = Some d \<and> d < now))"
  proof
    assume h: "\<not> running w \<and> distinct (map fst (docs w)) \<and> (j, c) \<in> set (query_active (docs w)) \<and>
      transition (status c) \<noteq> None"
    have "(j, c) \<in> set (docs w)"
      using h by (auto simp: query_active_def dest: in_set_takeD)
    with h have cj: "map_of (docs w) j = Some c" by simp
    show "(\<exists>c'. map_of (docs (snd (tick now e no_faults w))) j = Some c' \<and> c' \<noteq> c)
           \<longleftrightarrow> (\<exists>d. getDeadline c = Some d \<and> d < now)"
    proof
      assume "\<exists>c'. map_of (docs (snd (tick now e no_faults w))) j = Some c' \<and> c' \<noteq> c"
      with tick_doc[where w=w and j=j and now=now and e=e and F=no_faults] cj
      obtain c' where "transitioned now e c c'" by auto
      then show "\<exists>d. getDeadline c = Some d \<and> d < now"
        by (auto simp: transitioned_def split: option.splits)
    next
      assume "\<exists>d. getDeadline c = Some d \<and> d < now"
      then obtain d where d: "getDeadline c = Some d" "d < now" by blast
      from tick_commits[of w j c d now e] h d
      obtain c' where "map_of (docs (snd (tick now e no_faults w))) j = Some c'"
        "transitioned now e c c'" by blast
      with transitioned_changes
      show "\<exists>c'. map_of (docs (snd (tick now e no_faults w))) j = Some c' \<and> c' \<noteq> c" by blast
    qed
  qed
  from a b b' skip commit stale keep iff show ?thesis by blast
qed

text \<open>
  Complaint \<^verbatim>\<open>a\<close> has its deadline at 10000. At \<open>now = 10000\<close> it is not overdue, and the loop
  body and the cycle leave it alone; at 10001 it is overdue, and the loop body and the cycle
  take it to \<^verbatim>\<open>sla_warning\<close>. The page of the example store lists \<^verbatim>\<open>a\<close> as overdue at 11000;
  run on the store in which \<^verbatim>\<open>a\<close> has meanwhile got the deadline 50000, the loop leaves it
  alone.
\<close>

theorem C5_overdue_strict_witness:
  "map_of (docs ex_world) ''a'' = Some (ex_complaint ''submitted'' (Some 0) 5) \<and>
   getDeadline (ex_complaint ''submitted'' (Some 0) 5) = Some 10000 \<and>
   \<not> is_overdue 10000 (ex_complaint ''submitted'' (Some 0) 5) \<and>
   is_overdue 10001 (ex_complaint ''submitted'' (Some 0) 5) \<and>
   snd (process_overdue 10000 None no_faults ''a'' (docs ex_world)) = docs ex_world \<and>
   transition (status (ex_complaint ''submitted'' (Some 0) 5))
     = Some (''sla_warning'', 1, msg_warning) \<and>
   (\<exists>x c'. fst (process_overdue 10001 None no_faults ''a'' (docs ex_world)) = Inr (Some x) \<and>
            esc_id x = ''a'' \<and>
            map_of (snd (process_overdue 10001 None no_faults ''a'' (docs ex_world))) ''a'' = Some c' \<and>
            status c' = ''sla_warning'' \<and> escalationLevel c' = Some 1) \<and>
   map_of ex_refreshed ''a'' = Some ((ex_complaint ''submitted'' (Some 0) 12)\<lparr>slaDeadline := Some 50000\<rparr>) \<and>
   \<not> is_overdue 11000 ((ex_complaint ''submitted'' (Some 0) 12)\<lparr>slaDeadline := Some 50000\<rparr>) \<and>
   map_of (snd (process_all 11000 None no_faults
                  (map fst (filter (\<lambda>(i, c). is_overdue 11000 c) (query_active (docs ex_world))))
                  [] ex_refreshed)) ''a''
     = Some ((ex_complaint ''submitted'' (Some 0) 12)\<lparr>slaDeadline := Some 50000\<rparr>) \<and>
   \<not> running ex_world \<and> distinct (map fst (docs ex_world)) \<and>
   (''a'', ex_complaint ''submitted'' (Some 0) 5) \<in> set (query_active (docs ex_world)) \<and>
   map_of (docs (snd (tick 10000 None no_faults ex_world))) ''a''
     = Some (ex_complaint ''submitted'' (Some 0) 5) \<and>
   (\<exists>c'. map_of (docs (snd (tick 10001 None no_faults ex_world))) ''a'' = Some c' \<and>
         c' \<noteq> ex_complaint ''submitted'' (Some 0) 5)"
proof -
  let ?c = "ex_complaint ''submitted'' (Some 0) 5"
  let ?r = "(ex_complaint ''submitted'' (Some 0) 12)\<lparr>slaDeadline := Some 50000\<rparr>"
  let ?ids = "map fst (filter (\<lambda>(i, c). is_overdue 11000 c) (query_active (docs ex_world)))"
  have h: "map_of (docs ex_world) ''a'' = Some ?c" by (simp add: ex_world_def)
  have s: "slaDeadline ?c = Some 10000" by (simp add: ex_complaint_def)
  have tr: "transition (status ?c) = Some (''sla_warning'', 1, msg_warning)"
    by (simp add: ex_complaint_def transition_def)
  have nf: "\<not> get_fails no_faults ''a'' \<and> \<not> update_fails no_faults ''a'' \<and>
        (\<forall>ev. \<not> timeline_fails no_faults ''a'' ev) \<and> \<not> audit_fails no_faults ''a''"
    by (simp add: no_faults_def)
  have hr: "map_of ex_refreshed ''a'' = Some ?r" by (simp add: ex_refreshed_def)
  have sr: "slaDeadline ?r = Some 50000" by simp
  have nr: "\<not> running ex_world" by (simp add: ex_world_def)
  have di: "distinct (map fst (docs ex_world))" by (simp add: ex_world_def)
  have pg: "(''a'', ?c) \<in> set (query_active (docs ex_world))"
    by (simp add: query_active_def ACTIVE_STATUSES_def ex_world_def ex_complaint_def)
  note A = C5_overdue_strict[of 10000 ?c "docs ex_world" "''a''" None no_faults "''a''" "[]" "[]" ex_world]
  note B = C5_overdue_strict[of 10001 ?c "docs ex_world" "''a''" None no_faults "''a''" "[]" "[]" ex_world]
  note C = C5_overdue_strict[of 11000 ?r ex_refreshed "''a''" None no_faults "''a''" ?ids "[]" ex_world]
  from A s have d: "getDeadline ?c = Some 10000" by blast
  from A d have n: "\<not> is_overdue 10000 ?c" by simp
  from B d have o: "is_overdue 10001 ?c" by simp
  from A h d have p: "snd (process_overdue 10000 None no_faults ''a'' (docs ex_world)) = docs ex_world"
    by simp
  have late: "(10000::int) < 10001" by simp
  from B h d late tr nf
  have q: "\<exists>x c'. fst (process_overdue 10001 None no_faults ''a'' (docs ex_world)) = Inr (Some x) \<and>
            esc_id x = ''a'' \<and>
            map_of (snd (process_overdue 10001 None no_faults ''a'' (docs ex_world))) ''a'' = Some c' \<and>
            status c' = ''sla_warning'' \<and> escalationLevel c' = Some 1"
    by blast
  from C sr have dr: "getDeadline ?r = Some 50000" by blast
  from C dr have nor: "\<not> is_overdue 11000 ?r" by simp
  from C hr nor have st: "map_of (snd (process_all 11000 None no_faults ?ids [] ex_refreshed)) ''a'' = Some ?r"
    by blast
  from A h n have t: "map_of (docs (snd (tick 10000 None no_faults ex_world))) ''a'' = Some ?c"
    by blast
  from tr have el: "transition (status ?c) \<noteq> None" by simp
  from B nr di pg el d late
  have u: "\<exists>c'. map_of (docs (snd (tick 10001 None no_faults ex_world))) ''a'' = Some c' \<and> c' \<noteq> ?c"
    by blast
  from h d n o p tr q hr nor st nr di pg t u show ?thesis by blast
qed

subsection \<open>C6: the re-entrancy guard\<close>

text \<open>
  C6. While the \<^verbatim>\<open>running\<close> flag is set, \<^verbatim>\<open>tick\<close> returns zeros and an empty list and
  leaves the service and the store as they are, whatever the store calls would have done.
  A call that finds the flag clear returns with the flag clear, whether the cycle succeeded
  or was rejected.
\<close>

theorem C6_reentrancy_guard:
  "(running w \<longrightarrow> tick now e F w = (Inr (\<lparr>scanned = 0, escalated = 0, updatedIds = []\<rparr>, []), w)) \<and>
   (\<not> running w \<longrightarrow> \<not> running (snd (tick now e F w)))"
  by (auto simp: tick_def Let_def split: prod.splits)

text \<open>
  The example world with the flag set, and the rejected cycle of the example faults.
\<close>

theorem C6_reentrancy_guard_witness:
  "running (ex_world\<lparr>running := True\<rparr>) \<and>
   tick 11000 None ex_faults (ex_world\<lparr>running := True\<rparr>)
     = (Inr (\<lparr>scanned = 0, escalated = 0, updatedIds = []\<rparr>, []), ex_world\<lparr>running := True\<rparr>) \<and>
   \<not> running ex_world \<and>
   \<not> running (snd (tick 11000 None ex_faults ex_world))"
proof -
  have 1: "running (ex_world\<lparr>running := True\<rparr>)" by simp
  have 2: "\<not> running ex_world" by (simp add: ex_world_def)
  from C6_reentrancy_guard[of "ex_world\<lparr>running := True\<rparr>" 11000 None ex_faults]
       C6_reentrancy_guard[of ex_world 11000 None ex_faults] 1 2
  show ?thesis by blast
qed

subsection \<open>C7: the fallback entries of the enricher\<close>

text \<open>
  C7, as stated, says that on every failure of the advisory call exactly one fallback entry
  is appended, under an action different from the one of AI-enriched entries. Two inputs
  show otherwise. An empty result is handled inside the \<^verbatim>\<open>try\<close> block: the entry has the
  fixed message but the action \<^verbatim>\<open>ai_escalation_justification\<close>, the same as the entry written
  for a real justification. And when the call rejects and the store rejects the append of
  the \<^verbatim>\<open>catch\<close> block, no entry is appended at all: the enricher stops with the error and the
  store is as before.
\<close>

theorem C7_counterexample:
  "map_option (map (\<lambda>ev. (ev_action ev, ev_message ev)) \<circ> timeline)
     (map_of (snd (explain_one (\<lambda>_. Returns (Some [])) no_faults (\<lambda>_. 12000)
                     ex_escalation (docs ex_world))) ''a'')
     = Some [(''ai_escalation_justification'', ''System escalation enforced due to SLA breach.'')] \<and>
   map_option (map (\<lambda>ev. (ev_action ev, ev_message ev)) \<circ> timeline)
     (map_of (snd (explain_one (\<lambda>_. Returns (Some ''Deadline missed'')) no_faults (\<lambda>_. 12000)
                     ex_escalation (docs ex_world))) ''a'')
     = Some [(''ai_escalation_justification'', ''AI justification: Deadline missed'')] \<and>
   explain_one (\<lambda>_. Throws) ex_reject_all (\<lambda>_. 12000) ex_escalation (docs ex_world)
     = (Some StoreError, docs ex_world)"
  by (simp add: enrich_defs appendTimelineEvent_def no_faults_def example_defs)

text \<open>
  C7, amended. For an item of the enricher, with \<open>failed_ev\<close> the entry of the \<^verbatim>\<open>catch\<close> block
  (fixed message, action \<^verbatim>\<open>ai_escalation_justification_failed\<close>) and \<open>empty_ev\<close> the entry for
  an empty result (fixed message, action \<^verbatim>\<open>ai_escalation_justification\<close>, the action of every
  regular entry):
  \<^item> when the call rejects and the store accepts \<open>failed_ev\<close>, exactly that entry is appended;
  \<^item> when the call returns an absent or empty text and the store accepts \<open>empty_ev\<close>,
    exactly that entry is appended;
  \<^item> when the store rejects \<open>empty_ev\<close> and accepts \<open>failed_ev\<close>, exactly \<open>failed_ev\<close> is
    appended;
  \<^item> when the store rejects \<open>failed_ev\<close> after the call rejected or \<open>empty_ev\<close> was rejected,
    or when the complaint's document is gone, nothing is appended and the enricher stops
    with the error;
  \<^item> a real justification accepted by the store is appended as one regular entry;
  \<^item> no other document is touched.
\<close>

theorem C7_enricher_fallback:
  fixes G :: "escalation \<Rightarrow> advisory" and F :: faults and clk :: "string \<Rightarrow> millis"
    and x :: escalation and st :: store
  defines "i \<equiv> esc_id x"
    and "R \<equiv> explain_one G F clk x st"
    and "failed_ev \<equiv> failed_entry (clk (esc_id x))"
    and "empty_ev \<equiv> regular_entry MSG_EMPTY (clk (esc_id x))"
  shows
    "(\<forall>c. map_of st i = Some c \<and> G x = Throws \<and> \<not> timeline_fails F i failed_ev \<longrightarrow>
        fst R = None \<and> map_of (snd R) i = Some (c\<lparr>timeline := timeline c @ [failed_ev]\<rparr>)) \<and>
     (\<forall>c. map_of st i = Some c \<and> (G x = Returns None \<or> G x = Returns (Some [])) \<and>
          \<not> timeline_fails F i empty_ev \<longrightarrow>
        fst R = None \<and> map_of (snd R) i = Some (c\<lparr>timeline := timeline c @ [empty_ev]\<rparr>)) \<and>
     (\<forall>c. map_of st i = Some c \<and> (G x = Returns None \<or> G x = Returns (Some [])) \<and>
          timeline_fails F i empty_ev \<and> \<not> timeline_fails F i failed_ev \<longrightarrow>
        fst R = None \<and> map_of (snd R) i = Some (c\<lparr>timeline := timeline c @ [failed_ev]\<rparr>)) \<and>
     ((G x = Throws \<or>
       ((G x = Returns None \<or> G x = Returns (Some [])) \<and> timeline_fails F i empty_ev)) \<and>
          timeline_fails F i failed_ev \<longrightarrow>
        fst R = Some StoreError \<and> snd R = st) \<and>
     (map_of st i = None \<longrightarrow> fst R = Some StoreError \<and> snd R = st) \<and>
     (\<forall>c s. map_of st i = Some c \<and> G x = Returns (Some s) \<and> s \<noteq> [] \<and>
          \<not> timeline_fails F i (regular_entry (''AI justification: '' @ s) (clk i)) \<longrightarrow>
        fst R = None \<and>
        map_of (snd R) i = Some (c\<lparr>timeline := timeline c @
           [regular_entry (''AI justification: '' @ s) (clk i)]\<rparr>)) \<and>
     (\<forall>j. j \<noteq> i \<longrightarrow> map_of (snd R) j = map_of st j) \<and>
     ev_action failed_ev = ''ai_escalation_justification_failed'' \<and>
     ev_message failed_ev =
       ''System escalation enforced due to SLA breach. AI justification unavailable.'' \<and>
     ev_action empty_ev = ''ai_escalation_justification'' \<and>
     ev_message empty_ev = ''System escalation enforced due to SLA breach.'' \<and>
     (\<forall>m t. ev_action (regular_entry m t) = ''ai_escalation_justification'')"
proof -
  have app: "appendTimelineEvent F st i ev =
               Inr (modify_doc i (\<lambda>c. c\<lparr>timeline := timeline c @ [ev]\<rparr>) st)"
    if "map_of st i = Some c" "\<not> timeline_fails F i ev" for ev c
    using that by (simp add: appendTimelineEvent_def)
  have rej: "appendTimelineEvent F st i ev = Inl StoreError"
    if "timeline_fails F i ev \<or> map_of st i = None" for ev
    using that by (auto simp: appendTimelineEvent_def)
  have look: "map_of (modify_doc i f st) i = Some (f c)" if "map_of st i = Some c" for f c
    using that by (simp add: map_of_modify_doc)
  have 1: "\<forall>c. map_of st i = Some c \<and> G x = Throws \<and> \<not> timeline_fails F i failed_ev \<longrightarrow>
        fst R = None \<and> map_of (snd R) i = Some (c\<lparr>timeline := timeline c @ [failed_ev]\<rparr>)"
    using app look
    by (auto simp: R_def i_def failed_ev_def failed_entry_def explain_one_def)
  have 2: "\<forall>c. map_of st i = Some c \<and> (G x = Returns None \<or> G x = Returns (Some [])) \<and>
          \<not> timeline_fails F i empty_ev \<longrightarrow>
        fst R = None \<and> map_of (snd R) i = Some (c\<lparr>timeline := timeline c @ [empty_ev]\<rparr>)"
    using app look
    by (auto simp: R_def i_def empty_ev_def regular_entry_def explain_one_def)
  have 3: "\<forall>c. map_of st i = Some c \<and> (G x = Returns None \<or> G x = Returns (Some [])) \<and>
          timeline_fails F i empty_ev \<and> \<not> timeline_fails F i failed_ev \<longrightarrow>
        fst R = None \<and> map_of (snd R) i = Some (c\<lparr>timeline := timeline c @ [failed_ev]\<rparr>)"
  proof (intro allI impI)
    fix c assume h: "map_of st i = Some c \<and> (G x = Returns None \<or> G x = Returns (Some [])) \<and>
          timeline_fails F i empty_ev \<and> \<not> timeline_fails F i failed_ev"
    then have r: "appendTimelineEvent F st i empty_ev = Inl StoreError" using rej by blast
    from h have a: "appendTimelineEvent F st i failed_ev =
       Inr (modify_doc i (\<lambda>c. c\<lparr>timeline := timeline c @ [failed_ev]\<rparr>) st)" using app by blast
    from h r a have "R = (None, modify_doc i (\<lambda>c. c\<lparr>timeline := timeline c @ [failed_ev]\<rparr>) st)"
      unfolding R_def explain_one_def
      by (auto simp: i_def empty_ev_def failed_ev_def regular_entry_def failed_entry_def)
    with h look show "fst R = None \<and> map_of (snd R) i = Some (c\<lparr>timeline := timeline c @ [failed_ev]\<rparr>)"
      by simp
  qed
  have 4: "(G x = Throws \<or>
       ((G x = Returns None \<or> G x = Returns (Some [])) \<and> timeline_fails F i empty_ev)) \<and>
          timeline_fails F i failed_ev \<longrightarrow>
        fst R = Some StoreError \<and> snd R = st"
  proof
    assume h: "(G x = Throws \<or>
       ((G x = Returns None \<or> G x = Returns (Some [])) \<and> timeline_fails F i empty_ev)) \<and>
          timeline_fails F i failed_ev"
    then have f: "appendTimelineEvent F st i failed_ev = Inl StoreError" using rej by blast
    have e: "appendTimelineEvent F st i empty_ev = Inl StoreError" if "G x \<noteq> Throws"
      using that h rej by blast
    from h f e have "R = (Some StoreError, st)"
      unfolding R_def explain_one_def
      by (auto simp: i_def empty_ev_def failed_ev_def regular_entry_def failed_entry_def)
    then show "fst R = Some StoreError \<and> snd R = st" by simp
  qed
  have gone: "map_of st i = None \<longrightarrow> fst R = Some StoreError \<and> snd R = st"
  proof
    assume "map_of st i = None"
    then have "appendTimelineEvent F st i ev = Inl StoreError" for ev using rej by blast
    then have "R = (Some StoreError, st)"
      unfolding R_def explain_one_def by (simp add: i_def split: advisory.splits)
    then show "fst R = Some StoreError \<and> snd R = st" by simp
  qed
  have 5: "\<forall>c s. map_of st i = Some c \<and> G x = Returns (Some s) \<and> s \<noteq> [] \<and>
          \<not> timeline_fails F i (regular_entry (''AI justification: '' @ s) (clk i)) \<longrightarrow>
        fst R = None \<and>
        map_of (snd R) i = Some (c\<lparr>timeline := timeline c @
           [regular_entry (''AI justification: '' @ s) (clk i)]\<rparr>)"
    using app look
    by (auto simp: R_def i_def regular_entry_def explain_one_def)
  have 6: "\<forall>j. j \<noteq> i \<longrightarrow> map_of (snd R) j = map_of st j"
  proof (intro allI impI)
    fix j assume "j \<noteq> i"
    obtain r st' where s: "explain_one G F clk x st = (r, st')"
      by (cases "explain_one G F clk x st") auto
    from explain_one_doc[OF s] \<open>j \<noteq> i\<close> show "map_of (snd R) j = map_of st j"
      by (auto simp: R_def s i_def)
  qed
  have 7: "ev_action failed_ev = ''ai_escalation_justification_failed'' \<and>
     ev_message failed_ev =
       ''System escalation enforced due to SLA breach. AI justification unavailable.'' \<and>
     ev_action empty_ev = ''ai_escalation_justification'' \<and>
     ev_message empty_ev = ''System escalation enforced due to SLA breach.'' \<and>
     (\<forall>m t. ev_action (regular_entry m t) = ''ai_escalation_justification'')"
    by (simp add: failed_ev_def empty_ev_def failed_entry_def regular_entry_def
          ACTION_FAILED_def ACTION_OK_def MSG_FAILED_def MSG_EMPTY_def)
  from 1 2 3 4 gone 5 6 7 show ?thesis by blast
qed

text \<open>
  The entry for complaint \<^verbatim>\<open>a\<close> at 12000: when the call rejects; when it returns nothing;
  when it returns nothing and the store rejects regular entries; and no entry when the call
  rejects and the store rejects every append.
\<close>

theorem C7_enricher_fallback_witness:
  "map_of (docs ex_world) (esc_id ex_escalation) = Some (ex_complaint ''submitted'' (Some 0) 5) \<and>
   \<not> timeline_fails no_faults (esc_id ex_escalation) (failed_entry 12000) \<and>
   \<not> timeline_fails no_faults (esc_id ex_escalation) (regular_entry MSG_EMPTY 12000) \<and>
   timeline_fails ex_reject_regular (esc_id ex_escalation) (regular_entry MSG_EMPTY 12000) \<and>
   \<not> timeline_fails ex_reject_regular (esc_id ex_escalation) (failed_entry 12000) \<and>
   timeline_fails ex_reject_all (esc_id ex_escalation) (failed_entry 12000) \<and>
   map_of (snd (explain_one (\<lambda>_. Throws) no_faults (\<lambda>_. 12000) ex_escalation (docs ex_world)))
       (esc_id ex_escalation) =
     Some ((ex_complaint ''submitted'' (Some 0) 5)\<lparr>timeline :=
        timeline (ex_complaint ''submitted'' (Some 0) 5) @ [failed_entry 12000]\<rparr>) \<and>
   map_of (snd (explain_one (\<lambda>_. Returns None) no_faults (\<lambda>_. 12000) ex_escalation (docs ex_world)))
       (esc_id ex_escalation) =
     Some ((ex_complaint ''submitted'' (Some 0) 5)\<lparr>timeline :=
        timeline (ex_complaint ''submitted'' (Some 0) 5) @ [regular_entry MSG_EMPTY 12000]\<rparr>) \<and>
   map_of (snd (explain_one (\<lambda>_. Returns None) ex_reject_regular (\<lambda>_. 12000) ex_escalation
                  (docs ex_world)))
       (esc_id ex_escalation) =
     Some ((ex_complaint ''submitted'' (Some 0) 5)\<lparr>timeline :=
        timeline (ex_complaint ''submitted'' (Some 0) 5) @ [failed_entry 12000]\<rparr>) \<and>
   fst (explain_one (\<lambda>_. Throws) ex_reject_all (\<lambda>_. 12000) ex_escalation (docs ex_world))
     = Some StoreError \<and>
   snd (explain_one (\<lambda>_. Throws) ex_reject_all (\<lambda>_. 12000) ex_escalation (docs ex_world))
     = docs ex_world"
proof -
  have h: "map_of (docs ex_world) (esc_id ex_escalation) = Some (ex_complaint ''submitted'' (Some 0) 5)"
    by (simp add: ex_world_def ex_escalation_def)
  have f1: "\<not> timeline_fails no_faults (esc_id ex_escalation) (failed_entry 12000)"
    and f2: "\<not> timeline_fails no_faults (esc_id ex_escalation) (regular_entry MSG_EMPTY 12000)"
    by (simp_all add: no_faults_def)
  have f3: "timeline_fails ex_reject_regular (esc_id ex_escalation) (regular_entry MSG_EMPTY 12000)"
    and f4: "\<not> timeline_fails ex_reject_regular (esc_id ex_escalation) (failed_entry 12000)"
    by (simp_all add: ex_reject_regular_def no_faults_def regular_entry_def failed_entry_def
          ACTION_OK_def ACTION_FAILED_def)
  have f5: "timeline_fails ex_reject_all (esc_id ex_escalation) (failed_entry 12000)"
    by (simp add: ex_reject_all_def)
  note A = C7_enricher_fallback[where G="\<lambda>_. Throws" and F=no_faults and clk="\<lambda>_. 12000"
             and x=ex_escalation and st="docs ex_world"]
  note B = C7_enricher_fallback[where G="\<lambda>_. Returns None" and F=no_faults and clk="\<lambda>_. 12000"
             and x=ex_escalation and st="docs ex_world"]
  note C = C7_enricher_fallback[where G="\<lambda>_. Returns None" and F=ex_reject_regular
             and clk="\<lambda>_. 12000" and x=ex_escalation and st="docs ex_world"]
  note D = C7_enricher_fallback[where G="\<lambda>_. Throws" and F=ex_reject_all and clk="\<lambda>_. 12000"
             and x=ex_escalation and st="docs ex_world"]
  from A h f1 have a: "map_of (snd (explain_one (\<lambda>_. Throws) no_faults (\<lambda>_. 12000) ex_escalation (docs ex_world)))
       (esc_id ex_escalation) =
     Some ((ex_complaint ''submitted'' (Some 0) 5)\<lparr>timeline :=
        timeline (ex_complaint ''submitted'' (Some 0) 5) @ [failed_entry 12000]\<rparr>)" by simp
  from B h f2 have b: "map_of (snd (explain_one (\<lambda>_. Returns None) no_faults (\<lambda>_. 12000) ex_escalation (docs ex_world)))
       (esc_id ex_escalation) =
     Some ((ex_complaint ''submitted'' (Some 0) 5)\<lparr>timeline :=
        timeline (ex_complaint ''submitted'' (Some 0) 5) @ [regular_entry MSG_EMPTY 12000]\<rparr>)" by simp
  from C h f3 f4 have c: "map_of (snd (explain_one (\<lambda>_. Returns None) ex_reject_regular (\<lambda>_. 12000) ex_escalation
                  (docs ex_world)))
       (esc_id ex_escalation) =
     Some ((ex_complaint ''submitted'' (Some 0) 5)\<lparr>timeline :=
        timeline (ex_complaint ''submitted'' (Some 0) 5) @ [failed_entry 12000]\<rparr>)" by simp
  from D f5 have d: "fst (explain_one (\<lambda>_. Throws) ex_reject_all (\<lambda>_. 12000) ex_escalation (docs ex_world))
     = Some StoreError \<and>
   snd (explain_one (\<lambda>_. Throws) ex_reject_all (\<lambda>_. 12000) ex_escalation (docs ex_world))
     = docs ex_world" by simp
  from h f1 f2 f3 f4 f5 a b c d show ?thesis by blast
qed

subsection \<open>C8: the escalation level does not decrease\<close>




subsection \<open>C9: the bulk query\<close>

text \<open>
  C9, as stated, says that no complaint in a status that is final for the watchdog is
  fetched. \<^verbatim>\<open>ACTIVE_STATUSES\<close> lists \<^verbatim>\<open>escalated\<close>: the escalated complaint \<^verbatim>\<open>c\<close> is the first
  document of the page, although no transition leaves \<^verbatim>\<open>escalated\<close> and the cycle leaves
  \<^verbatim>\<open>c\<close> as it was. The resolved complaint \<^verbatim>\<open>d\<close> is not fetched.
\<close>

theorem C9_counterexample:
  "map (\<lambda>x. (fst x, status (snd x))) (query_active (docs ex_world))
     = [(''c'', ''escalated''), (''b'', ''sla_warning''), (''a'', ''submitted'')] \<and>
   transition ''escalated'' = None \<and>
   is_overdue 11000 (ex_complaint ''escalated'' (Some 2) 9) \<and>
   map_of (docs (snd (tick 11000 None no_faults ex_world))) ''c''
     = Some (ex_complaint ''escalated'' (Some 2) 9)"
  by (simp add: model_defs example_defs)

text \<open>
  C9, amended. The page holds documents of the store only, at most 250 of them, each with a
  status listed in \<^verbatim>\<open>ACTIVE_STATUSES\<close> (so never \<^verbatim>\<open>resolved\<close>), most recently updated first;
  a listed document left out of the page was not updated later than any document in it.
  \<^verbatim>\<open>escalated\<close> is among the listed statuses: such complaints are fetched, and skipped later
  by the loop.
\<close>

theorem C9_query_active:
  "set (query_active st) \<subseteq> set st \<and>
   length (query_active st) \<le> 250 \<and>
   (\<forall>x\<in>set (query_active st). status (snd x) \<in> set ACTIVE_STATUSES \<and> status (snd x) \<noteq> ''resolved'') \<and>
   sorted_wrt (\<lambda>x y. updatedAt (snd y) \<le> updatedAt (snd x)) (query_active st) \<and>
   (\<forall>x\<in>set (query_active st). \<forall>y\<in>set st.
       status (snd y) \<in> set ACTIVE_STATUSES \<and> y \<notin> set (query_active st) \<longrightarrow>
       updatedAt (snd y) \<le> updatedAt (snd x)) \<and>
   ''escalated'' \<in> set ACTIVE_STATUSES"
proof -
  let ?P = "\<lambda>(i, c). status c \<in> set ACTIVE_STATUSES"
  let ?S = "sort_key (\<lambda>(i, c). - updatedAt c) (filter ?P st)"
  let ?R = "\<lambda>x y. updatedAt (snd y) \<le> updatedAt (snd x)"
  have q: "query_active st = take 250 ?S" by (simp add: query_active_def)
  have setS: "set ?S = {x \<in> set st. ?P x}" by simp
  have sub: "set (query_active st) \<subseteq> set ?S" unfolding q by (rule set_take_subset)
  have 1: "set (query_active st) \<subseteq> set st" using sub setS by blast
  have 2: "length (query_active st) \<le> 250" unfolding q by simp
  have nres: "''resolved'' \<notin> set ACTIVE_STATUSES" by (simp add: ACTIVE_STATUSES_def)
  have 3: "\<forall>x\<in>set (query_active st). status (snd x) \<in> set ACTIVE_STATUSES \<and> status (snd x) \<noteq> ''resolved''"
  proof
    fix x assume "x \<in> set (query_active st)"
    with sub setS have "?P x" by blast
    then have "status (snd x) \<in> set ACTIVE_STATUSES" by (simp add: case_prod_beta)
    with nres show "status (snd x) \<in> set ACTIVE_STATUSES \<and> status (snd x) \<noteq> ''resolved''" by metis
  qed
  have sS: "sorted_wrt ?R ?S" by (rule query_active_sorted)
  then have sTD: "sorted_wrt ?R (take 250 ?S @ drop 250 ?S)" by simp
  have 4: "sorted_wrt ?R (query_active st)"
    using sTD unfolding q sorted_wrt_append by blast
  have 5: "\<forall>x\<in>set (query_active st). \<forall>y\<in>set st.
       status (snd y) \<in> set ACTIVE_STATUSES \<and> y \<notin> set (query_active st) \<longrightarrow>
       updatedAt (snd y) \<le> updatedAt (snd x)"
  proof (intro ballI impI)
    fix x y assume x: "x \<in> set (query_active st)" and y: "y \<in> set st"
      and h: "status (snd y) \<in> set ACTIVE_STATUSES \<and> y \<notin> set (query_active st)"
    from y h have "y \<in> set ?S" by (simp add: case_prod_beta)
    then have "y \<in> set (take 250 ?S) \<union> set (drop 250 ?S)"
      by (metis append_take_drop_id set_append)
    with h have "y \<in> set (drop 250 ?S)" unfolding q by blast
    with x sTD show "updatedAt (snd y) \<le> updatedAt (snd x)"
      unfolding q sorted_wrt_append by blast
  qed
  have 6: "''escalated'' \<in> set ACTIVE_STATUSES" by (simp add: ACTIVE_STATUSES_def)
  from 1 2 3 4 5 6 show ?thesis by blast
qed

text \<open>
  The page of the example store holds \<^verbatim>\<open>c\<close> and \<^verbatim>\<open>a\<close>.
\<close>

theorem C9_query_active_witness:
  "(''c'', ex_complaint ''escalated'' (Some 2) 9) \<in> set (query_active (docs ex_world)) \<and>
   (''a'', ex_complaint ''submitted'' (Some 0) 5) \<in> set (query_active (docs ex_world)) \<and>
   status (snd (''c'', ex_complaint ''escalated'' (Some 2) 9)) \<in> set ACTIVE_STATUSES \<and>
   status (snd (''a'', ex_complaint ''submitted'' (Some 0) 5)) \<noteq> ''resolved'' \<and>
   length (query_active (docs ex_world)) \<le> 250"
proof -
  have c: "(''c'', ex_complaint ''escalated'' (Some 2) 9) \<in> set (query_active (docs ex_world))"
    by (simp add: query_active_def ACTIVE_STATUSES_def example_defs)
  have a: "(''a'', ex_complaint ''submitted'' (Some 0) 5) \<in> set (query_active (docs ex_world))"
    by (simp add: query_active_def ACTIVE_STATUSES_def example_defs)
  from C9_query_active[of "docs ex_world"] a c show ?thesis by blast
qed

subsection \<open>C10: at least one elapsed second\<close>

text \<open>
  C10. Every entry that a cycle hands to the enricher has \<^verbatim>\<open>elapsedSeconds\<close> of at least 1,
  and the number is exactly 1 when the complaint's creation time is not before \<open>now\<close>.
\<close>

theorem C10_elapsed_at_least_one:
  assumes "fst (tick now e F w) = Inr (res, escs)"
  shows "(\<forall>x\<in>set escs. 1 \<le> elapsedSeconds x) \<and>
         (now \<le> created \<longrightarrow> elapsed_seconds now created = 1)"
  using tick_pushed[OF assms] by (auto simp: elapsed_seconds_def)

text \<open>
  A complaint created at 20000 and found overdue at 11000 is handed over with one second.
\<close>

theorem C10_elapsed_at_least_one_witness:
  "fst (tick 11000 None no_faults ex_world_late) =
     Inr (\<lparr>scanned = 1, escalated = 1, updatedIds = [''n'']\<rparr>,
          [\<lparr>esc_id = ''n'', esc_department = Some ''roads'', esc_severity = ''high'',
            esc_status = ''sla_warning'', elapsedSeconds = 1\<rparr>]) \<and>
   1 \<le> elapsedSeconds \<lparr>esc_id = ''n'', esc_department = Some ''roads'', esc_severity = ''high'',
            esc_status = ''sla_warning'', elapsedSeconds = 1\<rparr> \<and>
   (11000::int) \<le> 20000 \<and> elapsed_seconds 11000 20000 = 1"
proof -
  have h: "fst (tick 11000 None no_faults ex_world_late) =
     Inr (\<lparr>scanned = 1, escalated = 1, updatedIds = [''n'']\<rparr>,
          [\<lparr>esc_id = ''n'', esc_department = Some ''roads'', esc_severity = ''high'',
            esc_status = ''sla_warning'', elapsedSeconds = 1\<rparr>])"
    by (simp add: model_defs example_defs ex_world_late_def)
  from C10_elapsed_at_least_one[OF h, of 20000] h show ?thesis by simp
qed

end
